theory Spec2Isabelle
  imports Main "HOL-Library.AList" "HOL-Library.Char_ord" "HOL-Library.List_Lexorder"
begin

section \<open>Data model\<close>

text \<open>
  The development embeds \<^verbatim>\<open>level-ttl.js\<close>: the functions \<^verbatim>\<open>prefixKey\<close>,
  \<^verbatim>\<open>expiryKey\<close>, \<^verbatim>\<open>buildQuery\<close>, \<^verbatim>\<open>startTtl\<close> (its interval callback and the
  four stream handlers), \<^verbatim>\<open>stopTtl\<close>, \<^verbatim>\<open>ttlon\<close>, \<^verbatim>\<open>ttloff\<close>, \<^verbatim>\<open>put\<close>,
  \<^verbatim>\<open>setTtl\<close>, \<^verbatim>\<open>del\<close> and \<^verbatim>\<open>batch\<close>.

  Conventions of the embedding:
  \<^item> a JavaScript value that may be \<^verbatim>\<open>null\<close> or \<^verbatim>\<open>undefined\<close> is an \<open>option\<close>
    (\<open>None\<close> for both); keys and values are strings; numbers are integers (\<open>int\<close>);
  \<^item> an asynchronous call is the pair of its outcome and the world after it; the calls
    on the store take effect in the order in which the source issues them;
  \<^item> the host store (an external collaborator) is an association list per store handle,
    every call on it is appended to \<open>trace\<close>, and each call that reaches the storage
    consumes the head of \<open>faults\<close>: \<open>Some e\<close> makes that call fail with \<open>e\<close>;
  \<^item> a promise that rejects is \<open>Inl (Rejected e)\<close>, one that never settles is
    \<open>Inl Pending\<close>, one that resolves is \<open>Inr\<close> of its value;
  \<^item> \<^verbatim>\<open>db.emit('error', err)\<close> appends \<open>err\<close> to \<open>emitted\<close> when an \<^verbatim>\<open>'error'\<close>
    listener is attached (\<open>errorListener\<close>), and throws \<open>err\<close> when none is; an error
    thrown where no caller can catch it is appended to \<open>uncaught\<close>;
  \<^item> the lock of \<^verbatim>\<open>async-lock\<close> is not reentrant: \<open>held\<close> lists the keys that are
    locked, and an acquisition of a held key waits for a release that, in a run where
    every operation that finishes releases its keys, never comes;
  \<^item> batches that the sweeper issues without awaiting them are queued in \<open>inflight\<close> and
    take effect at a later \<open>settle\<close> step.
\<close>

datatype error =
  LEVEL_NOT_FOUND | LEVEL_INVALID_KEY | LEVEL_INVALID_VALUE | TYPE_ERROR | STORAGE_FAILURE

text \<open>How a promise fails to resolve: it rejects, or it never settles.\<close>

datatype failure = Rejected error | Pending

type_synonym kvstore = "(string \<times> string) list"

text \<open>The two store handles: \<^verbatim>\<open>db\<close> and \<^verbatim>\<open>db._ttl.sub\<close>.\<close>

datatype target = Db | Sub

text \<open>A batch operation object \<^verbatim>\<open>{ type, key, value }\<close>.\<close>

datatype entry = Entry (etype: string) (ekey: "string option") (evalue: "string option")

text \<open>A component of a composite key: a string, a \<^verbatim>\<open>Date\<close> (milliseconds), or the
  \<^verbatim>\<open>Invalid Date\<close>.\<close>

datatype elem = EStr string | EDate int | EInvalidDate

datatype event =
    EvGet target string
  | EvPut "string option" "string option"
  | EvDel "string option"
  | EvBatch target "entry option list"
  | EvAcquire "string list"
  | EvRelease "string list"

text \<open>The options after \<^verbatim>\<open>Object.assign\<close> in \<^verbatim>\<open>setup\<close>; \<open>sub\<close> tells whether
  \<^verbatim>\<open>options.sub\<close> is set.\<close>

record options =
  sub :: bool
  namespace :: string
  expiryNamespace :: string
  separator :: string
  defaultTTL :: int

text \<open>The closure of one run of the interval callback: the entries its stream has
  matched, its two local arrays, and the error its stream raises, if any.\<close>

record scan =
  s_pending :: "(string \<times> string) list"
  s_batch :: "entry list"
  s_subBatch :: "entry list"
  s_error :: "error option"

record world =
  dbStore :: kvstore
  subStore :: kvstore
  clock :: int
  faults :: "error option list"
  emitted :: "error list"
  trace :: "event list"
  intervalActive :: bool
  checkInProgress :: bool
  stopAfterCheck :: bool
  scans :: "scan list"
  inflight :: "(target \<times> entry list) list"
  errorListener :: bool
  held :: "string list"
  uncaught :: "error list"

definition defaults :: options where
  "defaults = \<lparr> sub = False, namespace = ''ttl'', expiryNamespace = ''x'',
                separator = ''!'', defaultTTL = 0 \<rparr>"

definition prefixNs :: "options \<Rightarrow> string list" where
  "prefixNs opts = (if namespace opts \<noteq> [] then [namespace opts] else [])"

definition expiryNs :: "options \<Rightarrow> string list" where
  "expiryNs opts = prefixNs opts @ [expiryNamespace opts]"

section \<open>The default key codec\<close>

text \<open>
  Modelled from the spec: \<^verbatim>\<open>createEncoding\<close> of \<^verbatim>\<open>encoding.js\<close>, which is not among the
  sources. The spec gives the default codec as separator-delimited strings with the
  layout \<^verbatim>\<open><namespace>!<key>\<close> for an ExpiryMarker and
  \<^verbatim>\<open><namespace>!<expiryNamespace>!<timestamp>!<key>\<close> for a ScheduleEntry; the tests
  fix the rest: the encoding starts with the separator when no sub-store is configured
  (\<^verbatim>\<open>!ttl!x!\d{13}!bar\<close>, \<^verbatim>\<open>!ttl!bar\<close>) and does not when one is
  (\<^verbatim>\<open>!meta!\<close> followed by \<^verbatim>\<open>x!\d{13}!key\<close>), a date is written as its decimal
  millisecond timestamp, the encoding of a single key is the key itself, and decoding
  returns the stored string. The pluggable \<^verbatim>\<open>ttlEncoding\<close> is not modelled. The
  definitions of this section, down to \<open>decode\<close>, make up that codec.
\<close>

text \<open>Modelled from the spec: the timestamp of an entry, \<^verbatim>\<open>String(n)\<close> for an integer
  \<open>n\<close>, is its decimal digits.\<close>

function show_nat :: "nat \<Rightarrow> string" where
  "show_nat n = (if n < 10 then [char_of (48 + n)]
                 else show_nat (n div 10) @ [char_of (48 + n mod 10)])"
  by pat_completeness auto
termination
  by (relation "measure id") auto

declare show_nat.simps [simp del]

text \<open>Modelled from the spec: the same for a timestamp of either sign.\<close>

definition show_int :: "int \<Rightarrow> string" where
  "show_int i = (if i < 0 then CHR ''-'' # show_nat (nat (- i)) else show_nat (nat i))"

text \<open>Modelled from the spec: the components are delimited by the separator, as
  \<^verbatim>\<open>Array.prototype.join\<close> does.\<close>

fun join :: "string \<Rightarrow> string list \<Rightarrow> string" where
  "join s [] = []"
| "join s [x] = x"
| "join s (x # y # r) = x @ s @ join s (y # r)"

text \<open>Modelled from the spec: a component is written as it is, a date as its
  timestamp.\<close>

fun encodeElement :: "elem \<Rightarrow> string" where
  "encodeElement (EStr s) = s"
| "encodeElement (EDate t) = show_int t"
| "encodeElement EInvalidDate = ''NaN''"

text \<open>\<^verbatim>\<open>new Date(t)\<close>: a time value beyond 8.64e15 milliseconds gives the
  \<^verbatim>\<open>Invalid Date\<close>, whose timestamp is \<^verbatim>\<open>NaN\<close>.\<close>

definition valid_time :: "int \<Rightarrow> bool" where
  "valid_time t = (- 8640000000000000 \<le> t \<and> t \<le> 8640000000000000)"

definition new_Date :: "int \<Rightarrow> elem" where
  "new_Date t = (if valid_time t then EDate t else EInvalidDate)"

text \<open>Modelled from the spec: the encoding of a composite key.\<close>

definition encode :: "options \<Rightarrow> elem list \<Rightarrow> string" where
  "encode opts es =
     (if sub opts then [] else separator opts) @ join (separator opts) (map encodeElement es)"

text \<open>Modelled from the spec: decoding returns the stored string.\<close>

definition decode :: "string \<Rightarrow> string" where
  "decode s = s"

definition prefixKey :: "options \<Rightarrow> string \<Rightarrow> string" where
  "prefixKey opts key = encode opts (map EStr (prefixNs opts) @ [EStr key])"

definition expiryKey :: "options \<Rightarrow> elem \<Rightarrow> string \<Rightarrow> string" where
  "expiryKey opts expiryDate key =
     encode opts (map EStr (expiryNs opts) @ [expiryDate, EStr key])"

section \<open>The host store\<close>

definition store_of :: "target \<Rightarrow> world \<Rightarrow> kvstore" where
  "store_of tgt w = (case tgt of Db \<Rightarrow> dbStore w | Sub \<Rightarrow> subStore w)"

definition set_store :: "target \<Rightarrow> kvstore \<Rightarrow> world \<Rightarrow> world" where
  "set_store tgt s w = (case tgt of Db \<Rightarrow> w\<lparr>dbStore := s\<rparr> | Sub \<Rightarrow> w\<lparr>subStore := s\<rparr>)"

definition log_event :: "event \<Rightarrow> world \<Rightarrow> world" where
  "log_event ev w = w\<lparr>trace := trace w @ [ev]\<rparr>"

definition take_fault :: "world \<Rightarrow> error option \<times> world" where
  "take_fault w = (case faults w of [] \<Rightarrow> (None, w) | f # fs \<Rightarrow> (f, w\<lparr>faults := fs\<rparr>))"

text \<open>\<^verbatim>\<open>db.emit('error', e)\<close>: with a listener the error is delivered and the call
  returns (\<open>None\<close>); without one the emitter throws the error (\<open>Some e\<close>).\<close>

definition emit :: "error \<Rightarrow> world \<Rightarrow> error option \<times> world" where
  "emit e w =
     (if errorListener w then (None, w\<lparr>emitted := emitted w @ [e]\<rparr>) else (Some e, w))"

text \<open>The outcome of a call on the host store, as the promise the caller awaits.\<close>

fun settled :: "error + unit \<Rightarrow> failure + unit" where
  "settled (Inl e) = Inl (Rejected e)"
| "settled (Inr u) = Inr u"

text \<open>\<^verbatim>\<open>get\<close> resolves to the value, or to \<^verbatim>\<open>undefined\<close> for a missing key. A host
  store that rejects a missing key with \<^verbatim>\<open>LEVEL_NOT_FOUND\<close> instead is the fault
  \<open>Some LEVEL_NOT_FOUND\<close> at that call.\<close>

definition host_get :: "target \<Rightarrow> string \<Rightarrow> world \<Rightarrow> (error + string option) \<times> world" where
  "host_get tgt key w =
     (case take_fault (log_event (EvGet tgt key) w) of
        (Some e, w') \<Rightarrow> (Inl e, w')
      | (None, w') \<Rightarrow> (Inr (map_of (store_of tgt w') key), w'))"

definition host_put ::
  "string option \<Rightarrow> string option \<Rightarrow> world \<Rightarrow> (error + unit) \<times> world" where
  "host_put key val w =
     (let w0 = log_event (EvPut key val) w in
      case key of None \<Rightarrow> (Inl LEVEL_INVALID_KEY, w0)
      | Some k \<Rightarrow>
         (case val of None \<Rightarrow> (Inl LEVEL_INVALID_VALUE, w0)
          | Some v \<Rightarrow>
             (case take_fault w0 of
                (Some e, w') \<Rightarrow> (Inl e, w')
              | (None, w') \<Rightarrow> (Inr (), w'\<lparr>dbStore := AList.update k v (dbStore w')\<rparr>))))"

definition host_del :: "string option \<Rightarrow> world \<Rightarrow> (error + unit) \<times> world" where
  "host_del key w =
     (let w0 = log_event (EvDel key) w in
      case key of None \<Rightarrow> (Inl LEVEL_INVALID_KEY, w0)
      | Some k \<Rightarrow>
         (case take_fault w0 of
            (Some e, w') \<Rightarrow> (Inl e, w')
          | (None, w') \<Rightarrow> (Inr (), w'\<lparr>dbStore := AList.delete k (dbStore w')\<rparr>)))"

text \<open>The check the host store makes of one batch operation before it writes.\<close>

fun check_op :: "entry option \<Rightarrow> error option" where
  "check_op None = Some TYPE_ERROR"
| "check_op (Some (Entry t k v)) =
     (if t \<noteq> ''put'' \<and> t \<noteq> ''del'' then Some TYPE_ERROR
      else if k = None then Some LEVEL_INVALID_KEY
      else if t = ''put'' \<and> v = None then Some LEVEL_INVALID_VALUE
      else None)"

fun first_error :: "error option list \<Rightarrow> error option" where
  "first_error [] = None"
| "first_error (None # r) = first_error r"
| "first_error (Some e # r) = Some e"

fun apply_op :: "entry option \<Rightarrow> kvstore \<Rightarrow> kvstore" where
  "apply_op (Some (Entry t (Some k) v)) s =
     (if t = ''put'' then (case v of Some x \<Rightarrow> AList.update k x s | None \<Rightarrow> s)
      else AList.delete k s)"
| "apply_op _ s = s"

text \<open>\<^verbatim>\<open>batch\<close> is atomic: it writes every operation, in order, or none.\<close>

definition host_batch ::
  "target \<Rightarrow> entry option list \<Rightarrow> world \<Rightarrow> (error + unit) \<times> world" where
  "host_batch tgt arr w =
     (let w0 = log_event (EvBatch tgt arr) w in
      case first_error (map check_op arr) of
        Some e \<Rightarrow> (Inl e, w0)
      | None \<Rightarrow>
         (case take_fault w0 of
            (Some e, w') \<Rightarrow> (Inl e, w')
          | (None, w') \<Rightarrow> (Inr (), set_store tgt (fold apply_op arr (store_of tgt w')) w')))"

text \<open>The store that holds the expiry index: \<^verbatim>\<open>sub || db\<close>.\<close>

definition metaTarget :: "options \<Rightarrow> target" where
  "metaTarget opts = (if sub opts then Sub else Db)"

definition metaStore :: "options \<Rightarrow> world \<Rightarrow> kvstore" where
  "metaStore opts w = store_of (metaTarget opts) w"

definition getFn :: "options \<Rightarrow> string \<Rightarrow> world \<Rightarrow> (error + string option) \<times> world" where
  "getFn opts = host_get (metaTarget opts)"

definition batchFn :: "options \<Rightarrow> entry list \<Rightarrow> world \<Rightarrow> (error + unit) \<times> world" where
  "batchFn opts b = host_batch (metaTarget opts) (map Some b)"

definition del_op :: "string \<Rightarrow> entry" where
  "del_op k = Entry ''del'' (Some k) None"

definition put_op :: "string \<Rightarrow> string \<Rightarrow> entry" where
  "put_op k v = Entry ''put'' (Some k) (Some v)"

text \<open>\<^verbatim>\<open>x > 0\<close> for a number that may be \<^verbatim>\<open>undefined\<close>.\<close>

fun gt0 :: "int option \<Rightarrow> bool" where
  "gt0 None = False"
| "gt0 (Some n) = (0 < n)"

section \<open>The expiry index: ttloff and ttlon\<close>

text \<open>The body of the \<^verbatim>\<open>async key => ...\<close> closure of \<^verbatim>\<open>ttloff\<close>: the deletions it
  pushes, or the error it rethrows. A stored marker is a buffer, which is truthy.\<close>

definition ttloff_lookup ::
  "options \<Rightarrow> string \<Rightarrow> world \<Rightarrow> (error + entry list) \<times> world" where
  "ttloff_lookup opts key w =
     (let prefixedKey = prefixKey opts key in
      case getFn opts prefixedKey w of
        (Inr (Some exp), w') \<Rightarrow>
          (Inr [del_op (expiryKey opts (EStr (decode exp)) key), del_op prefixedKey], w')
      | (Inr None, w') \<Rightarrow> (Inr [], w')
      | (Inl err, w') \<Rightarrow> (if err \<noteq> LEVEL_NOT_FOUND then Inl err else Inr [], w'))"

text \<open>\<^verbatim>\<open>Promise.all(keys.map(...))\<close>: every lookup is started, in the order of the keys;
  the outcome is the first rejection, or the deletions pushed by all of them.\<close>

fun ttloff_lookups ::
  "options \<Rightarrow> string list \<Rightarrow> world \<Rightarrow> (error + entry list) \<times> world" where
  "ttloff_lookups opts [] w = (Inr [], w)"
| "ttloff_lookups opts (key # keys) w =
     (case ttloff_lookup opts key w of
        (r, w1) \<Rightarrow>
          (case ttloff_lookups opts keys w1 of
             (rs, w2) \<Rightarrow>
               (case r of Inl err \<Rightarrow> Inl err
                | Inr b \<Rightarrow> (case rs of Inl err \<Rightarrow> Inl err | Inr bs \<Rightarrow> Inr (b @ bs)), w2)))"

text \<open>The \<^verbatim>\<open>catch (err) { db.emit('error', err) }\<close> that ends \<^verbatim>\<open>ttloff\<close>: the
  function returns when the emitter returns, and rejects with what the emitter throws.\<close>

definition catch_emit :: "error \<Rightarrow> world \<Rightarrow> (failure + unit) \<times> world" where
  "catch_emit err w =
     (case emit err w of
        (None, w') \<Rightarrow> (Inr (), w')
      | (Some x, w') \<Rightarrow> (Inl (Rejected x), w'))"

text \<open>\<^verbatim>\<open>ttloff\<close> after its lookups have settled: the rejection is caught, or the
  deletions pushed are written in one batch.\<close>

definition ttloff_finish ::
  "options \<Rightarrow> error + entry list \<Rightarrow> world \<Rightarrow> (failure + unit) \<times> world" where
  "ttloff_finish opts r w =
     (case r of
        Inl err \<Rightarrow> catch_emit err w
      | Inr b \<Rightarrow>
          if b = [] then (Inr (), w)
          else (case batchFn opts b w of
                  (Inl err, w2) \<Rightarrow> catch_emit err w2
                | (Inr _, w2) \<Rightarrow> (Inr (), w2)))"

definition ttloff :: "options \<Rightarrow> string list \<Rightarrow> world \<Rightarrow> (failure + unit) \<times> world" where
  "ttloff opts keys w =
     (case ttloff_lookups opts keys w of (r, w1) \<Rightarrow> ttloff_finish opts r w1)"

text \<open>The lock of \<^verbatim>\<open>async-lock\<close>, an external library. \<^verbatim>\<open>acquire(keys, fn)\<close> with an
  array nests one acquisition per key, in the order of the array; the callback runs once
  every key is taken. A key that is held (by an operation that never released it, or
  by an earlier position of the same array) is never obtained: the keys taken before it
  stay held and the callback never runs.\<close>

fun lock_keys :: "string list \<Rightarrow> string list \<Rightarrow> bool \<times> string list" where
  "lock_keys [] h = (True, h)"
| "lock_keys (k # ks) h = (if k \<in> set h then (False, h) else lock_keys ks (h @ [k]))"

definition acquire :: "string list \<Rightarrow> world \<Rightarrow> bool \<times> world" where
  "acquire keys w =
     (case lock_keys keys (held w) of
        (ok, h) \<Rightarrow> (ok, (log_event (EvAcquire keys) w)\<lparr>held := h\<rparr>))"

definition release :: "string list \<Rightarrow> world \<Rightarrow> world" where
  "release keys w =
     (log_event (EvRelease keys) w)\<lparr>held := filter (\<lambda>k. k \<notin> set keys) (held w)\<rparr>"

definition ttlon_batch :: "options \<Rightarrow> elem \<Rightarrow> string list \<Rightarrow> entry list" where
  "ttlon_batch opts expiryTime keys =
     concat (map (\<lambda>key. [put_op (expiryKey opts expiryTime key) (encodeElement (EStr key)),
                          put_op (prefixKey opts key) (encodeElement expiryTime)]) keys)"

text \<open>The \<^verbatim>\<open>catch\<close> of the callback of \<^verbatim>\<open>ttlon\<close>, and the \<^verbatim>\<open>release()\<close> after it:
  when the emitter throws, the callback rejects with no one awaiting it, \<^verbatim>\<open>release()\<close>
  is not reached, the keys stay held and the promise of \<^verbatim>\<open>acquire\<close> never settles.\<close>

definition ttlon_catch :: "string list \<Rightarrow> error \<Rightarrow> world \<Rightarrow> (failure + unit) \<times> world" where
  "ttlon_catch keys err w =
     (case emit err w of
        (None, w') \<Rightarrow> (Inr (), release keys w')
      | (Some x, w') \<Rightarrow> (Inl Pending, w'\<lparr>uncaught := uncaught w' @ [x]\<rparr>))"

text \<open>The callback of \<^verbatim>\<open>ttlon\<close> after its \<^verbatim>\<open>ttloff\<close> has settled with \<open>c\<close>: the new
  ScheduleEntry and ExpiryMarker of every key are put in one batch.\<close>

definition ttlon_write ::
  "options \<Rightarrow> string list \<Rightarrow> elem \<Rightarrow> failure + unit \<Rightarrow> world \<Rightarrow> (failure + unit) \<times> world"
  where
  "ttlon_write opts keys expiryTime c w =
     (case c of
        Inl (Rejected err) \<Rightarrow> ttlon_catch keys err w
      | Inl Pending \<Rightarrow> (Inl Pending, w)
      | Inr _ \<Rightarrow>
          (let b = ttlon_batch opts expiryTime keys
           in if b = [] then (Inr (), release keys w)
              else (case batchFn opts b w of
                      (Inl err, w3) \<Rightarrow> ttlon_catch keys err w3
                    | (Inr _, w3) \<Rightarrow> (Inr (), release keys w3))))"

text \<open>The promise of \<^verbatim>\<open>ttlon\<close> is the one that \<^verbatim>\<open>acquire\<close> returns: it resolves
  when \<^verbatim>\<open>release()\<close> is called, and never settles when the lock is not obtained.\<close>

definition ttlon :: "options \<Rightarrow> string list \<Rightarrow> int \<Rightarrow> world \<Rightarrow> (failure + unit) \<times> world" where
  "ttlon opts keys ttl w =
     (let expiryTime = new_Date (clock w + ttl)
      in case acquire keys w of
           (False, w1) \<Rightarrow> (Inl Pending, w1)
         | (True, w1) \<Rightarrow>
             (case ttloff opts keys w1 of
                (c, w2) \<Rightarrow> ttlon_write opts keys expiryTime c w2))"

section \<open>The wrapped operations\<close>

text \<open>\<^verbatim>\<open>Promise.all\<close> of two promises: it rejects as soon as one rejects, resolves
  when both have resolved, and otherwise never settles.\<close>

fun promise_all2 :: "failure + unit \<Rightarrow> failure + unit \<Rightarrow> failure + unit" where
  "promise_all2 (Inl (Rejected e)) _ = Inl (Rejected e)"
| "promise_all2 _ (Inl (Rejected e)) = Inl (Rejected e)"
| "promise_all2 (Inl Pending) _ = Inl Pending"
| "promise_all2 _ (Inl Pending) = Inl Pending"
| "promise_all2 (Inr _) (Inr _) = Inr ()"

text \<open>The ttl in force: the default replaces a ttl that is not set.\<close>

definition effective_ttl :: "options \<Rightarrow> int option \<Rightarrow> int option" where
  "effective_ttl opts ttl =
     (if 0 < defaultTTL opts \<and> ttl = None then Some (defaultTTL opts) else ttl)"

definition put ::
  "options \<Rightarrow> string option \<Rightarrow> string option \<Rightarrow> int option \<Rightarrow> world
     \<Rightarrow> (failure + unit) \<times> world"
  where
  "put opts key val ttl w =
     (let ttl' = effective_ttl opts ttl in
      if gt0 ttl' \<and> key \<noteq> None \<and> val \<noteq> None then
        (case host_put key val w of
           (r1, w1) \<Rightarrow>
             (case ttlon opts [the key] (the ttl') w1 of
                (r2, w2) \<Rightarrow> (promise_all2 (settled r1) r2, w2)))
      else (case host_put key val w of (r, w1) \<Rightarrow> (settled r, w1)))"

text \<open>\<^verbatim>\<open>setTtl\<close> starts \<^verbatim>\<open>ttlon\<close> and does not await it.\<close>

definition setTtl :: "options \<Rightarrow> string option \<Rightarrow> int option \<Rightarrow> world \<Rightarrow> world" where
  "setTtl opts key ttl w =
     (if gt0 ttl \<and> key \<noteq> None then snd (ttlon opts [the key] (the ttl) w) else w)"

definition del :: "options \<Rightarrow> string option \<Rightarrow> world \<Rightarrow> (failure + unit) \<times> world" where
  "del opts key w =
     (case (if key \<noteq> None then ttloff opts [the key] w else (Inr (), w)) of
        (Inl f, w1) \<Rightarrow> (Inl f, w1)
      | (Inr _, w1) \<Rightarrow> (case host_del key w1 of (r, w2) \<Rightarrow> (settled r, w2)))"

text \<open>The two lists that \<^verbatim>\<open>batch\<close> fills in its \<^verbatim>\<open>forEach\<close>.\<close>

fun batch_on :: "entry option list \<Rightarrow> string list" where
  "batch_on [] = []"
| "batch_on (None # r) = batch_on r"
| "batch_on (Some (Entry t None v) # r) = batch_on r"
| "batch_on (Some (Entry t (Some k) v) # r) =
     (if t = ''put'' \<and> v \<noteq> None then k # batch_on r else batch_on r)"

fun batch_off :: "entry option list \<Rightarrow> string list" where
  "batch_off [] = []"
| "batch_off (None # r) = batch_off r"
| "batch_off (Some (Entry t None v) # r) = batch_off r"
| "batch_off (Some (Entry t (Some k) v) # r) =
     (if t = ''del'' then k # batch_off r else batch_off r)"

text \<open>
  The two index updates of \<^verbatim>\<open>batch\<close>, \<^verbatim>\<open>Promise.all([ttlon(on), ttloff(off)])\<close>,
  are both started before either is awaited, so they run interleaved. \<^verbatim>\<open>ttlon\<close>
  takes the lock and starts the lookups of its \<^verbatim>\<open>ttloff\<close>, and \<^verbatim>\<open>ttloff(off)\<close>
  starts its lookups, before any lookup has completed. The host store completes its
  calls in the order in which they were issued, and the two updates continue in the
  order in which they were started: the \<^verbatim>\<open>ttloff\<close> inside \<^verbatim>\<open>ttlon\<close> writes its
  deletions, \<^verbatim>\<open>ttloff(off)\<close> writes its own, and \<^verbatim>\<open>ttlon\<close>, which has one more
  \<^verbatim>\<open>await\<close> to pass, writes the new pairs last. (When the \<^verbatim>\<open>ttloff\<close> inside
  \<^verbatim>\<open>ttlon\<close> has nothing to delete, which of the last two reaches the store first
  depends on the scheduling of the host store; the model keeps the same order.) An
  update that is not started (\<^verbatim>\<open>null\<close> in the array) counts as resolved.
\<close>

text \<open>\<^verbatim>\<open>ttlon\<close> up to the point where the lookups of its \<^verbatim>\<open>ttloff\<close> have been
  started: \<open>None\<close> when the lock is not obtained.\<close>

definition ttlon_start ::
  "options \<Rightarrow> string list \<Rightarrow> world \<Rightarrow> (error + entry list) option \<times> world" where
  "ttlon_start opts keys w =
     (case acquire keys w of
        (False, w1) \<Rightarrow> (None, w1)
      | (True, w1) \<Rightarrow> (case ttloff_lookups opts keys w1 of (r, w2) \<Rightarrow> (Some r, w2)))"

text \<open>The interleaved run: the lookups of \<^verbatim>\<open>ttlon\<close>, the lookups of \<^verbatim>\<open>ttloff(off)\<close>,
  the deletions of the one, the deletions of the other, the write of \<^verbatim>\<open>ttlon\<close>.\<close>

definition batch_index ::
  "options \<Rightarrow> string list \<Rightarrow> string list \<Rightarrow> int \<Rightarrow> world \<Rightarrow> (failure + unit) \<times> world" where
  "batch_index opts on off ttl w =
     (let expiryTime = new_Date (clock w + ttl) in
      case (if on \<noteq> [] then (case ttlon_start opts on w of (x, w') \<Rightarrow> (Some x, w'))
            else (None, w)) of
        (s, w1) \<Rightarrow>
      case (if off \<noteq> [] then (case ttloff_lookups opts off w1 of (r, w') \<Rightarrow> (Some r, w'))
            else (None, w1)) of
        (l, w2) \<Rightarrow>
      case (case s of Some (Some r) \<Rightarrow> ttloff_finish opts r w2 | _ \<Rightarrow> (Inr (), w2)) of
        (c, w3) \<Rightarrow>
      case (case l of Some r \<Rightarrow> ttloff_finish opts r w3 | None \<Rightarrow> (Inr (), w3)) of
        (r2, w4) \<Rightarrow>
      case (case s of
              None \<Rightarrow> (Inr (), w4)
            | Some None \<Rightarrow> (Inl Pending, w4)
            | Some (Some r) \<Rightarrow> ttlon_write opts on expiryTime c w4) of
        (r1, w5) \<Rightarrow> (promise_all2 r1 r2, w5))"

text \<open>The operations are an array, as their declared type says, so
  \<^verbatim>\<open>Array.isArray(arr)\<close> holds; an entry that is \<^verbatim>\<open>null\<close> is \<open>None\<close>. The underlying
  batch is called once the two index updates have resolved.\<close>

definition batch ::
  "options \<Rightarrow> entry option list \<Rightarrow> int option \<Rightarrow> world \<Rightarrow> (failure + unit) \<times> world" where
  "batch opts arr ttl w =
     (let ttl' = effective_ttl opts ttl in
      if gt0 ttl' then
        (case batch_index opts (batch_on arr) (batch_off arr) (the ttl') w of
           (Inl f, w2) \<Rightarrow> (Inl f, w2)
         | (Inr _, w2) \<Rightarrow> (case host_batch Db arr w2 of (r, w3) \<Rightarrow> (settled r, w3)))
      else (case host_batch Db arr w of (r, w3) \<Rightarrow> (settled r, w3)))"

section \<open>The sweeper\<close>

record query =
  gte :: string
  lte :: string

definition buildQuery :: "options \<Rightarrow> int \<Rightarrow> query" where
  "buildQuery opts now =
     \<lparr> gte = encode opts (map EStr (expiryNs opts)),
       lte = encode opts (map EStr (expiryNs opts) @ [EDate now]) \<rparr>"

text \<open>The range scan of the host store: the entries whose key lies between the two
  bounds, both inclusive, in the byte order of their keys.\<close>

definition in_range :: "query \<Rightarrow> string \<Rightarrow> bool" where
  "in_range q k = (gte q \<le> k \<and> k \<le> lte q)"

definition entryStream :: "kvstore \<Rightarrow> query \<Rightarrow> (string \<times> string) list" where
  "entryStream s q = sort_key fst (filter (\<lambda>d. in_range q (fst d)) s)"

text \<open>The callback given to \<^verbatim>\<open>setInterval\<close>, up to the opening of the stream. The
  stream reads a snapshot of the store; the fault taken here is the error that the
  stream raises, if any.\<close>

definition interval_callback :: "options \<Rightarrow> world \<Rightarrow> world" where
  "interval_callback opts w =
     (let query = buildQuery opts (clock w);
          w1 = w\<lparr>checkInProgress := True\<rparr>
      in case take_fault w1 of
           (f, w2) \<Rightarrow>
             w2\<lparr>scans := scans w2 @
                   [\<lparr> s_pending = entryStream (metaStore opts w2) query,
                      s_batch = [], s_subBatch = [], s_error = f \<rparr>]\<rparr>)"

text \<open>The runtime calls the callback only while the interval has not been cleared.\<close>

definition timer_fire :: "options \<Rightarrow> world \<Rightarrow> world" where
  "timer_fire opts w = (if intervalActive w then interval_callback opts w else w)"

definition on_data :: "options \<Rightarrow> string \<times> string \<Rightarrow> scan \<Rightarrow> scan" where
  "on_data opts d sc =
     (let key = decode (snd d) in
      sc\<lparr>s_subBatch := s_subBatch sc @ [del_op (fst d), del_op (prefixKey opts key)],
         s_batch := s_batch sc @ [del_op key]\<rparr>)"

text \<open>\<^verbatim>\<open>emitError\<close>, the emitter bound to \<^verbatim>\<open>'error'\<close>, as the handlers of the
  sweeper call it: what it throws has no caller to reach and is recorded as uncaught;
  what the runtime then does is not modelled, and the events of the stream go on.\<close>

definition emitError :: "error \<Rightarrow> world \<Rightarrow> world" where
  "emitError e w =
     (case emit e w of
        (None, w') \<Rightarrow> w'
      | (Some x, w') \<Rightarrow> w'\<lparr>uncaught := uncaught w' @ [x]\<rparr>)"

text \<open>A batch that is started and not awaited.\<close>

definition issue :: "target \<Rightarrow> entry list \<Rightarrow> world \<Rightarrow> world" where
  "issue tgt b w = w\<lparr>inflight := inflight w @ [(tgt, b)]\<rparr>"

definition on_end :: "options \<Rightarrow> scan \<Rightarrow> world \<Rightarrow> world" where
  "on_end opts sc w =
     (if s_batch sc = [] then w
      else if sub opts then issue Db (s_batch sc) (issue Sub (s_subBatch sc) w)
      else issue Db (s_subBatch sc @ s_batch sc) w)"

definition stopTtl :: "world \<Rightarrow> world" where
  "stopTtl w =
     (if checkInProgress w then w\<lparr>stopAfterCheck := True\<rparr>
      else w\<lparr>intervalActive := False\<rparr>)"

definition on_close :: "world \<Rightarrow> world" where
  "on_close w =
     (let w1 = w\<lparr>checkInProgress := False\<rparr>
      in if stopAfterCheck w1 then (stopTtl w1)\<lparr>stopAfterCheck := False\<rparr> else w1)"

text \<open>The events of the stream of scan number \<open>i\<close>, as \<^verbatim>\<open>level-read-stream\<close> raises
  them: one \<^verbatim>\<open>data\<close> per matched entry, then \<^verbatim>\<open>end\<close>, then \<^verbatim>\<open>close\<close>; or
  \<^verbatim>\<open>error\<close>, then \<^verbatim>\<open>close\<close>.\<close>

definition deliver :: "options \<Rightarrow> scan \<Rightarrow> scan" where
  "deliver opts sc = (fold (on_data opts) (s_pending sc) sc)\<lparr>s_pending := []\<rparr>"

definition stream_events :: "options \<Rightarrow> nat \<Rightarrow> world \<Rightarrow> world" where
  "stream_events opts i w =
     (if i < length (scans w) then
        (let sc = scans w ! i;
             w1 = w\<lparr>scans := take i (scans w) @ drop (Suc i) (scans w)\<rparr>
         in case s_error sc of
              Some e \<Rightarrow> on_close (emitError e w1)
            | None \<Rightarrow> on_close (on_end opts (deliver opts sc) w1))
      else w)"

text \<open>The oldest batch in flight completes: it is written, or its failure is passed to
  \<^verbatim>\<open>emitError\<close>.\<close>

definition settle :: "world \<Rightarrow> world" where
  "settle w =
     (case inflight w of
        [] \<Rightarrow> w
      | (tgt, b) # rest \<Rightarrow>
          (case host_batch tgt (map Some b) (w\<lparr>inflight := rest\<rparr>) of
             (Inl e, w') \<Rightarrow> emitError e w'
           | (Inr _, w') \<Rightarrow> w'))"

section \<open>Observations on stores and traces\<close>

text \<open>The key of every ExpiryMarker starts with the encoding of \<^verbatim>\<open>_prefixNs\<close>.\<close>

definition marker_prefix :: "options \<Rightarrow> string" where
  "marker_prefix opts =
     (if sub opts then [] else separator opts)
     @ (if namespace opts \<noteq> [] then namespace opts @ separator opts else [])"

text \<open>The key of every ScheduleEntry starts with the encoding of \<^verbatim>\<open>_expiryNs\<close> and a
  separator.\<close>

definition schedule_prefix :: "options \<Rightarrow> string" where
  "schedule_prefix opts = encode opts (map EStr (expiryNs opts)) @ separator opts"

text \<open>A store key is a ScheduleEntry key of \<open>key\<close>: the schedule prefix, a timestamp
  that is not empty, a separator and the key (the pattern the tests count with).\<close>

definition is_schedule_key :: "options \<Rightarrow> string \<Rightarrow> string \<Rightarrow> bool" where
  "is_schedule_key opts key sk =
     (let pre = schedule_prefix opts; suf = separator opts @ key
      in length pre + length suf < length sk
         \<and> take (length pre) sk = pre
         \<and> drop (length sk - length suf) sk = suf)"

definition schedule_keys :: "options \<Rightarrow> string \<Rightarrow> kvstore \<Rightarrow> string set" where
  "schedule_keys opts key s = set (filter (is_schedule_key opts key) (map fst s))"

text \<open>Exactly one live pair for \<open>key\<close>, with the timestamp written \<open>d\<close>: the marker
  holds \<open>d\<close>, and the one ScheduleEntry of the key is the one at \<open>d\<close>, holding the key.\<close>

definition live_pair :: "options \<Rightarrow> string \<Rightarrow> string \<Rightarrow> kvstore \<Rightarrow> bool" where
  "live_pair opts key d s =
     (map_of s (prefixKey opts key) = Some d
      \<and> schedule_keys opts key s = {expiryKey opts (EStr d) key}
      \<and> map_of s (expiryKey opts (EStr d) key) = Some key)"

text \<open>The invariant of the data model for one key: a marker and its ScheduleEntry, or
  neither.\<close>

definition pair_or_none :: "options \<Rightarrow> string \<Rightarrow> kvstore \<Rightarrow> bool" where
  "pair_or_none opts key s =
     (case map_of s (prefixKey opts key) of
        None \<Rightarrow> schedule_keys opts key s = {}
      | Some d \<Rightarrow> schedule_keys opts key s = {expiryKey opts (EStr d) key})"

text \<open>A run of renewals of one key: each call \<open>(t, ttl)\<close> is \<^verbatim>\<open>ttlon(db, [key], ttl)\<close>
  issued at time \<open>t\<close>, after the one before it has settled.\<close>

fun renewals :: "options \<Rightarrow> string \<Rightarrow> (int \<times> int) list \<Rightarrow> world \<Rightarrow> world" where
  "renewals opts key [] w = w"
| "renewals opts key ((t, ttl) # calls) w =
     renewals opts key calls (snd (ttlon opts [key] ttl (w\<lparr>clock := t\<rparr>)))"


text \<open>The keys can all be locked: no key is listed twice and none is held.\<close>

definition lockable :: "string list \<Rightarrow> world \<Rightarrow> bool" where
  "lockable keys w = (distinct keys \<and> list_all (\<lambda>k. k \<notin> set (held w)) keys)"

text \<open>The error emitter is not going to throw: a listener is attached, or the store has
  no fault to come.\<close>

definition no_throw :: "world \<Rightarrow> bool" where
  "no_throw w = (errorListener w \<or> faults w = [])"

text \<open>The events that a step from \<open>w\<close> to \<open>w'\<close> has added to the trace.\<close>

definition new_events :: "world \<Rightarrow> world \<Rightarrow> event list" where
  "new_events w w' = drop (length (trace w)) (trace w')"

fun is_lock_event :: "event \<Rightarrow> bool" where
  "is_lock_event (EvAcquire ks) = True"
| "is_lock_event (EvRelease ks) = True"
| "is_lock_event _ = False"

text \<open>A fault that is no storage failure: none, or the not-found of a lookup.\<close>

fun not_found_or_none :: "error option \<Rightarrow> bool" where
  "not_found_or_none None = True"
| "not_found_or_none (Some e) = (e = LEVEL_NOT_FOUND)"

text \<open>A batch whose every operation passes the check of the host store.\<close>

definition valid_ops :: "entry list \<Rightarrow> bool" where
  "valid_ops b = list_all (\<lambda>x. check_op (Some x) = None) b"

text \<open>What one \<^verbatim>\<open>ttlon\<close> does to the index store: the pair found through the marker
  is deleted, then the new pair is put.\<close>

definition renewed :: "options \<Rightarrow> string \<Rightarrow> int \<Rightarrow> kvstore \<Rightarrow> kvstore" where
  "renewed opts key t s =
     AList.update (prefixKey opts key) (show_int t)
       (AList.update (expiryKey opts (EDate t) key) key
          (case map_of s (prefixKey opts key) of
             None \<Rightarrow> s
           | Some d \<Rightarrow> AList.delete (prefixKey opts key)
                        (AList.delete (expiryKey opts (EStr d) key) s)))"

section \<open>Worlds used as concrete inputs\<close>

text \<open>An empty store at time 1000, with an \<^verbatim>\<open>'error'\<close> listener attached and no key
  locked.\<close>

definition world0 :: world where
  "world0 = \<lparr> dbStore = [], subStore = [], clock = 1000, faults = [], emitted = [],
              trace = [], intervalActive = True, checkInProgress = False,
              stopAfterCheck = False, scans = [], inflight = [], errorListener = True,
              held = [], uncaught = [] \<rparr>"

text \<open>The store after \<^verbatim>\<open>put('bar', 'barvalue', { ttl: 100 })\<close> at time 1000.\<close>

definition world_bar :: world where
  "world_bar = world0\<lparr>dbStore := [(''bar'', ''barvalue''), (''!ttl!x!1100!bar'', ''bar''),
                                   (''!ttl!bar'', ''1100'')]\<rparr>"

text \<open>The same store, on a host whose next call is rejected with not-found.\<close>

definition world_nf :: world where
  "world_nf = world_bar\<lparr>faults := [Some LEVEL_NOT_FOUND]\<rparr>"

text \<open>A host whose third storage call fails: the data put and the lookup of the marker
  succeed, the write of the new pair does not.\<close>

definition world_fail :: world where
  "world_fail = world0\<lparr>faults := [None, None, Some STORAGE_FAILURE]\<rparr>"

text \<open>The store with \<^verbatim>\<open>bar\<close>, on a host whose next storage call fails.\<close>

definition world_sf :: world where
  "world_sf = world_bar\<lparr>faults := [Some STORAGE_FAILURE]\<rparr>"


text \<open>The store with \<^verbatim>\<open>bar\<close>, at a time when its ttl has run out.\<close>

definition world_due :: world where
  "world_due = world_bar\<lparr>clock := 1200\<rparr>"

text \<open>The same, after the interval callback has opened its stream: a scan is in flight.\<close>

definition world_scanning :: world where
  "world_scanning = interval_callback defaults world_due"

text \<open>The store with \<^verbatim>\<open>bar\<close>, at the very millisecond at which its ttl runs out.\<close>

definition world_at_expiry :: world where
  "world_at_expiry = world_bar\<lparr>clock := 1100\<rparr>"

section \<open>Properties\<close>

subsection \<open>Strings and decimal timestamps\<close>

lemma string_append_less [simp]: "(xs @ u < xs @ v) = (u < v)" for xs u v :: string
  by (induction xs) auto

lemma string_append_le [simp]: "(xs @ u \<le> xs @ v) = (u \<le> v)" for xs u v :: string
  by (induction xs) auto

lemma string_le_self_append [simp]: "xs \<le> xs @ u" for xs u :: string
  using string_append_le [of xs "[]" u] by simp

lemma show_nat_nonempty [simp]: "show_nat n \<noteq> []"
  by (subst show_nat.simps) simp

lemma show_nat_small: "n < 10 \<Longrightarrow> show_nat n = [char_of (48 + n)]"
  by (subst show_nat.simps) simp

lemma show_nat_large:
  "\<not> n < 10 \<Longrightarrow> show_nat n = show_nat (n div 10) @ [char_of (48 + n mod 10)]"
  by (subst show_nat.simps) simp

lemma show_nat_length_1: "length (show_nat n) = 1 \<longleftrightarrow> n < 10"
  by (subst show_nat.simps) simp

lemma digit_less:
  "a < b \<Longrightarrow> b < 10 \<Longrightarrow> (char_of (48 + a) :: char) < char_of (48 + b)" for a b :: nat
  by (simp add: less_char_def)

lemma div_mod_less:
  fixes a b :: nat
  assumes "a < b"
  shows "a div 10 < b div 10 \<or> (a div 10 = b div 10 \<and> a mod 10 < b mod 10)"
proof (cases "a div 10 = b div 10")
  case True
  have "a = 10 * (a div 10) + a mod 10" and "b = 10 * (b div 10) + b mod 10"
    by simp_all
  with True assms have "a mod 10 < b mod 10" by linarith
  with True show ?thesis by simp
next
  case False
  from assms have "a div 10 \<le> b div 10" by (simp add: div_le_mono)
  with False show ?thesis by simp
qed

text \<open>Among decimal numerals of one length, the byte order is the numeric order,
  whatever follows the digits.\<close>

lemma show_nat_less:
  "length (show_nat a) = length (show_nat b) \<Longrightarrow> a < b \<Longrightarrow> show_nat a @ r < show_nat b @ r'"
proof (induction a arbitrary: b r r' rule: show_nat.induct)
  case (1 a)
  note len = \<open>length (show_nat a) = length (show_nat b)\<close> and lt = \<open>a < b\<close>
  show ?case
  proof (cases "a < 10")
    case True
    then have "length (show_nat a) = 1" by (simp only: show_nat_length_1)
    with len have "length (show_nat b) = 1" by (simp only:)
    then have "b < 10" by (simp only: show_nat_length_1)
    with True lt show ?thesis
      by (simp add: show_nat_small digit_less)
  next
    case False
    with lt have b10: "\<not> b < 10" by simp
    have la: "show_nat a = show_nat (a div 10) @ [char_of (48 + a mod 10)]"
      using False by (rule show_nat_large)
    have lb: "show_nat b = show_nat (b div 10) @ [char_of (48 + b mod 10)]"
      using b10 by (rule show_nat_large)
    have "length (show_nat a) = Suc (length (show_nat (a div 10)))"
      by (subst la) simp
    moreover have "length (show_nat b) = Suc (length (show_nat (b div 10)))"
      by (subst lb) simp
    ultimately have len': "length (show_nat (a div 10)) = length (show_nat (b div 10))"
      using len by (simp only: nat.inject)
    from div_mod_less [OF lt] show ?thesis
    proof
      assume "a div 10 < b div 10"
      from "1.IH" [OF False len' this,
          of "char_of (48 + a mod 10) # r" "char_of (48 + b mod 10) # r'"]
      show ?thesis by (subst la, subst lb) simp
    next
      assume h: "a div 10 = b div 10 \<and> a mod 10 < b mod 10"
      then have "(char_of (48 + a mod 10) :: char) < char_of (48 + b mod 10)"
        by (intro digit_less) auto
      with h show ?thesis by (subst la, subst lb) simp
    qed
  qed
qed

subsection \<open>The host store\<close>

lemma store_of_simps [simp]:
  "store_of tgt (w\<lparr>trace := t\<rparr>) = store_of tgt w"
  "store_of tgt (w\<lparr>faults := fs\<rparr>) = store_of tgt w"
  "store_of tgt (w\<lparr>emitted := es\<rparr>) = store_of tgt w"
  "store_of tgt (w\<lparr>held := h\<rparr>) = store_of tgt w"
  "store_of tgt (w\<lparr>uncaught := us\<rparr>) = store_of tgt w"
  by (simp_all add: store_of_def split: target.splits)

lemma host_get_cases:
  "host_get tgt key w =
     (case faults w of
        [] \<Rightarrow> (Inr (map_of (store_of tgt w) key), w\<lparr>trace := trace w @ [EvGet tgt key]\<rparr>)
      | None # fs \<Rightarrow> (Inr (map_of (store_of tgt w) key),
                       w\<lparr>trace := trace w @ [EvGet tgt key], faults := fs\<rparr>)
      | Some e # fs \<Rightarrow> (Inl e, w\<lparr>trace := trace w @ [EvGet tgt key], faults := fs\<rparr>))"
  by (simp add: host_get_def take_fault_def log_event_def split: list.splits option.splits)

subsection \<open>ttloff on a key without TTL\<close>

lemma ttloff_lookup_absent:
  assumes "map_of (metaStore opts w) (prefixKey opts key) = None"
      and "list_all not_found_or_none (faults w)"
  shows "ttloff_lookup opts key w =
           (Inr [], w\<lparr>trace := trace w @ [EvGet (metaTarget opts) (prefixKey opts key)],
                      faults := tl (faults w)\<rparr>)"
  using assms
  by (auto simp: ttloff_lookup_def getFn_def host_get_cases metaStore_def Let_def
      split: list.splits option.splits)

lemma ttloff_absent:
  assumes "map_of (metaStore opts w) (prefixKey opts key) = None"
      and "list_all not_found_or_none (faults w)"
  shows "ttloff opts [key] w =
           (Inr (), w\<lparr>trace := trace w @ [EvGet (metaTarget opts) (prefixKey opts key)],
                      faults := tl (faults w)\<rparr>)"
  by (simp add: ttloff_def ttloff_finish_def ttloff_lookup_absent [OF assms])

text \<open>
  C9. \<^verbatim>\<open>ttloff\<close> on a key that has no ExpiryMarker, on a host store that raises no
  failure other than not-found: whether the lookup resolves to \<^verbatim>\<open>undefined\<close> or is
  rejected with \<^verbatim>\<open>LEVEL_NOT_FOUND\<close>, the call resolves, emits no error and issues no
  batch: the only call on the store is the lookup, and the stores are as before.
  Repeating the call does the same again.
\<close>

theorem ttloff_without_ttl:
  assumes "map_of (metaStore opts w) (prefixKey opts key) = None"
      and "list_all not_found_or_none (faults w)"
  shows "ttloff opts [key] w =
           (Inr (), w\<lparr>trace := trace w @ [EvGet (metaTarget opts) (prefixKey opts key)],
                      faults := tl (faults w)\<rparr>)
         \<and> ttloff opts [key] (snd (ttloff opts [key] w)) =
           (Inr (), w\<lparr>trace := trace w @ [EvGet (metaTarget opts) (prefixKey opts key),
                                           EvGet (metaTarget opts) (prefixKey opts key)],
                      faults := tl (tl (faults w))\<rparr>)"
proof -
  let ?g = "EvGet (metaTarget opts) (prefixKey opts key)"
  let ?w1 = "w\<lparr>trace := trace w @ [?g], faults := tl (faults w)\<rparr>"
  have one: "ttloff opts [key] w = (Inr (), ?w1)"
    by (rule ttloff_absent [OF assms])
  have "map_of (metaStore opts ?w1) (prefixKey opts key) = None"
    using assms(1) by (simp add: metaStore_def)
  moreover have "list_all not_found_or_none (faults ?w1)"
    using assms(2) by (cases "faults w") simp_all
  ultimately have "ttloff opts [key] ?w1 =
      (Inr (), ?w1\<lparr>trace := trace ?w1 @ [?g], faults := tl (faults ?w1)\<rparr>)"
    by (rule ttloff_absent)
  with one show ?thesis by simp
qed

theorem ttloff_without_ttl_witness:
  "map_of (metaStore defaults world_nf) (prefixKey defaults ''foo'') = None
   \<and> list_all not_found_or_none (faults world_nf)
   \<and> ttloff defaults [''foo''] world_nf =
       (Inr (), world_nf\<lparr>trace := trace world_nf @
                                    [EvGet (metaTarget defaults) (prefixKey defaults ''foo'')],
                         faults := tl (faults world_nf)\<rparr>)
   \<and> ttloff defaults [''foo''] (snd (ttloff defaults [''foo''] world_nf)) =
       (Inr (), world_nf\<lparr>trace := trace world_nf @
                                    [EvGet (metaTarget defaults) (prefixKey defaults ''foo''),
                                     EvGet (metaTarget defaults) (prefixKey defaults ''foo'')],
                         faults := tl (tl (faults world_nf))\<rparr>)"
proof -
  have h1: "map_of (metaStore defaults world_nf) (prefixKey defaults ''foo'') = None"
    by (simp add: world_nf_def world_bar_def world0_def metaStore_def metaTarget_def
        store_of_def defaults_def prefixKey_def prefixNs_def encode_def)
  have h2: "list_all not_found_or_none (faults world_nf)"
    by (simp add: world_nf_def)
  from ttloff_without_ttl [OF h1 h2] h1 h2 show ?thesis
    by blast
qed

subsection \<open>setTtl\<close>

text \<open>
  C10. The injected \<^verbatim>\<open>ttl(key, delay)\<close> method, called with a null or undefined key or
  with a delay that is not greater than 0, is the identity on the world: it raises
  nothing (it has no outcome but the world), calls neither the lock nor the store, and
  leaves both stores as they were.
\<close>

theorem setTtl_noop:
  "key = None \<or> \<not> gt0 ttl \<Longrightarrow> setTtl opts key ttl w = w"
  by (auto simp: setTtl_def)

theorem setTtl_noop_witness:
  "setTtl defaults None (Some 250) world_bar = world_bar
   \<and> setTtl defaults (Some ''bar'') (Some 0) world_bar = world_bar
   \<and> setTtl defaults (Some ''bar'') (Some (- 5)) world_bar = world_bar
   \<and> setTtl defaults (Some ''bar'') None world_bar = world_bar"
  using setTtl_noop [of None "Some 250" defaults world_bar]
    setTtl_noop [of "Some ''bar''" "Some 0" defaults world_bar]
    setTtl_noop [of "Some ''bar''" "Some (- 5)" defaults world_bar]
    setTtl_noop [of "Some ''bar''" None defaults world_bar]
  by simp

subsection \<open>Batches of the expiry index\<close>

lemma first_error_None:
  "(\<And>x. x \<in> set xs \<Longrightarrow> check_op x = None) \<Longrightarrow> first_error (map check_op xs) = None"
  by (induction xs) simp_all

lemma check_put_op [simp]: "check_op (Some (put_op k v)) = None"
  by (simp add: put_op_def)

lemma check_del_op [simp]: "check_op (Some (del_op k)) = None"
  by (simp add: del_op_def)

lemma host_batch_cases:
  assumes "valid_ops b"
  shows "host_batch tgt (map Some b) w =
     (case faults w of
        Some e # fs \<Rightarrow> (Inl e, w\<lparr>trace := trace w @ [EvBatch tgt (map Some b)], faults := fs\<rparr>)
      | None # fs \<Rightarrow>
          (Inr (), set_store tgt (fold apply_op (map Some b) (store_of tgt w))
                     (w\<lparr>trace := trace w @ [EvBatch tgt (map Some b)], faults := fs\<rparr>))
      | [] \<Rightarrow>
          (Inr (), set_store tgt (fold apply_op (map Some b) (store_of tgt w))
                     (w\<lparr>trace := trace w @ [EvBatch tgt (map Some b)]\<rparr>)))"
proof -
  have "first_error (map check_op (map Some b)) = None"
    using assms by (intro first_error_None) (auto simp: valid_ops_def list_all_iff)
  then show ?thesis
    by (simp add: host_batch_def take_fault_def log_event_def split: list.splits option.splits)
qed

lemma valid_ops_simps [simp]:
  "valid_ops []"
  "valid_ops (x # b) = (check_op (Some x) = None \<and> valid_ops b)"
  "valid_ops (a @ b) = (valid_ops a \<and> valid_ops b)"
  by (auto simp: valid_ops_def)

lemma valid_ttlon_batch [simp]: "valid_ops (ttlon_batch opts t keys)"
  by (induction keys) (simp_all add: ttlon_batch_def)

lemma valid_del_ops [simp]: "valid_ops (map del_op ks)"
  by (induction ks) simp_all


lemma ttloff_lookup_valid: "ttloff_lookup opts key w = (Inr b, w1) \<Longrightarrow> valid_ops b"
  by (auto simp: ttloff_lookup_def Let_def split: prod.splits sum.splits option.splits if_splits)

lemma ttloff_lookups_valid: "ttloff_lookups opts keys w = (Inr b, w1) \<Longrightarrow> valid_ops b"
proof (induction keys arbitrary: w b w1)
  case Nil
  then show ?case by simp
next
  case (Cons key keys)
  then show ?case
    by (auto split: prod.splits sum.splits dest: ttloff_lookup_valid)
qed

subsection \<open>batch\<close>

text \<open>
  C3. The code at the failing input: on the store that holds \<^verbatim>\<open>bar\<close> with a ttl, a
  \<^verbatim>\<open>batch\<close> that deletes \<^verbatim>\<open>bar\<close>, with no ttl option and no default ttl, calls
  neither \<^verbatim>\<open>ttloff\<close> nor \<^verbatim>\<open>ttlon\<close>: the only call on the store is the underlying
  batch, and the ExpiryMarker and the ScheduleEntry of \<^verbatim>\<open>bar\<close> stay. \<^verbatim>\<open>del('bar')\<close> on
  the same store clears both.
\<close>

theorem batch_del_without_ttl_keeps_index:
  "batch defaults [Some (Entry ''del'' (Some ''bar'') None)] None world_bar =
     (Inr (), world_bar\<lparr>dbStore := [(''!ttl!x!1100!bar'', ''bar''), (''!ttl!bar'', ''1100'')],
                        trace := [EvBatch Db [Some (Entry ''del'' (Some ''bar'') None)]]\<rparr>)
   \<and> del defaults (Some ''bar'') world_bar =
     (Inr (), world_bar\<lparr>dbStore := [],
                        trace := [EvGet Db ''!ttl!bar'',
                                  EvBatch Db [Some (del_op ''!ttl!x!1100!bar''),
                                              Some (del_op ''!ttl!bar'')],
                                  EvDel (Some ''bar'')]\<rparr>)"
  by code_simp

subsection \<open>The sweeper: ticks and scans\<close>

lemma interval_callback_scans:
  "scans (interval_callback opts w) =
     scans w @ [\<lparr> s_pending = entryStream (metaStore opts w) (buildQuery opts (clock w)),
                  s_batch = [], s_subBatch = [],
                  s_error = (case faults w of [] \<Rightarrow> None | f # fs \<Rightarrow> f) \<rparr>]"
  by (simp add: interval_callback_def take_fault_def Let_def metaStore_def store_of_def
      split: list.splits target.splits)

lemma interval_callback_flags:
  "checkInProgress (interval_callback opts w) \<and> inflight (interval_callback opts w) = inflight w
   \<and> intervalActive (interval_callback opts w) = intervalActive w
   \<and> dbStore (interval_callback opts w) = dbStore w
   \<and> subStore (interval_callback opts w) = subStore w"
  by (simp add: interval_callback_def take_fault_def Let_def split: list.splits)

lemma on_end_inflight:
  "inflight (on_end opts sc w) =
     inflight w @ (if s_batch sc = [] then []
                   else if sub opts then [(Sub, s_subBatch sc), (Db, s_batch sc)]
                   else [(Db, s_subBatch sc @ s_batch sc)])"
  by (simp add: on_end_def issue_def)

lemma on_end_other [simp]:
  "scans (on_end opts sc w) = scans w"
  "intervalActive (on_end opts sc w) = intervalActive w"
  "checkInProgress (on_end opts sc w) = checkInProgress w"
  "stopAfterCheck (on_end opts sc w) = stopAfterCheck w"
  "dbStore (on_end opts sc w) = dbStore w"
  "subStore (on_end opts sc w) = subStore w"
  "emitted (on_end opts sc w) = emitted w"
  by (simp_all add: on_end_def issue_def)

lemma on_close_other [simp]:
  "scans (on_close w) = scans w"
  "inflight (on_close w) = inflight w"
  "dbStore (on_close w) = dbStore w"
  "subStore (on_close w) = subStore w"
  "checkInProgress (on_close w) = False"
  "stopAfterCheck (on_close w) = False"
  by (simp_all add: on_close_def stopTtl_def Let_def)


lemma deliver_batches:
  "s_subBatch (deliver opts sc) =
     s_subBatch sc @ concat (map (\<lambda>d. [del_op (fst d), del_op (prefixKey opts (decode (snd d)))])
                             (s_pending sc))
   \<and> s_batch (deliver opts sc) = s_batch sc @ map (\<lambda>d. del_op (decode (snd d))) (s_pending sc)"
proof -
  have "\<And>sc. s_subBatch (fold (on_data opts) ds sc) =
          s_subBatch sc @ concat (map (\<lambda>d. [del_op (fst d), del_op (prefixKey opts (decode (snd d)))]) ds)
        \<and> s_batch (fold (on_data opts) ds sc) = s_batch sc @ map (\<lambda>d. del_op (decode (snd d))) ds"
    for ds
    by (induction ds) (simp_all add: on_data_def Let_def)
  then show ?thesis by (simp add: deliver_def)
qed

lemma stream_events_scans:
  "i < length (scans w) \<Longrightarrow>
   scans (stream_events opts i w) = take i (scans w) @ drop (Suc i) (scans w)"
  by (simp add: stream_events_def Let_def emitError_def emit_def split: option.splits)

lemma stream_events_inflight:
  "i < length (scans w) \<Longrightarrow>
   inflight (stream_events opts i w) =
     (case s_error (scans w ! i) of
        Some e \<Rightarrow> inflight w
      | None \<Rightarrow> inflight (on_end opts (deliver opts (scans w ! i)) w))"
  by (simp add: stream_events_def Let_def emitError_def emit_def on_end_inflight split: option.splits)

text \<open>
  C4, as stated, fails: while a scan is in flight (\<^verbatim>\<open>_checkInProgress\<close> is set and the
  stream of the first tick has not ended), a second tick is no no-op: the callback opens a
  second stream over the same due entry, and two scans are in flight.
\<close>

theorem tick_during_scan_starts_second_scan:
  "checkInProgress world_scanning
   \<and> scans world_scanning =
       [\<lparr> s_pending = [(''!ttl!x!1100!bar'', ''bar'')], s_batch = [], s_subBatch = [],
           s_error = None \<rparr>]
   \<and> scans (timer_fire defaults world_scanning) =
       [\<lparr> s_pending = [(''!ttl!x!1100!bar'', ''bar'')], s_batch = [], s_subBatch = [],
           s_error = None \<rparr>,
        \<lparr> s_pending = [(''!ttl!x!1100!bar'', ''bar'')], s_batch = [], s_subBatch = [],
           s_error = None \<rparr>]"
  by code_simp

text \<open>
  C4, as amended. A timer tick that arrives while a scan is in flight is not dropped: as
  long as the interval is active, every tick, whatever \<^verbatim>\<open>_checkInProgress\<close> is, starts
  a further scan with two new, empty arrays of its own, and leaves the scans in flight and
  the batches in flight as they are. Scans may therefore overlap, but their deletion
  batches are never mixed: the events of one stream remove that scan, leave the others
  untouched, and issue only the deletions queued from that scan's own entries.
\<close>

theorem tick_starts_scan_with_own_batches:
  "(intervalActive w \<longrightarrow>
      scans (timer_fire opts w) =
        scans w @ [\<lparr> s_pending = entryStream (metaStore opts w) (buildQuery opts (clock w)),
                     s_batch = [], s_subBatch = [],
                     s_error = (case faults w of [] \<Rightarrow> None | f # fs \<Rightarrow> f) \<rparr>]
      \<and> checkInProgress (timer_fire opts w)
      \<and> inflight (timer_fire opts w) = inflight w)
   \<and> (i < length (scans w) \<longrightarrow>
        scans (stream_events opts i w) = take i (scans w) @ drop (Suc i) (scans w)
        \<and> inflight (stream_events opts i w) =
            (case s_error (scans w ! i) of
               Some e \<Rightarrow> inflight w
             | None \<Rightarrow> inflight (on_end opts (deliver opts (scans w ! i)) w)))
   \<and> s_subBatch (deliver opts sc) =
        s_subBatch sc @ concat (map (\<lambda>d. [del_op (fst d), del_op (prefixKey opts (decode (snd d)))])
                                (s_pending sc))
   \<and> s_batch (deliver opts sc) = s_batch sc @ map (\<lambda>d. del_op (decode (snd d))) (s_pending sc)"
  using interval_callback_scans [of opts w] interval_callback_flags [of opts w]
    stream_events_scans [of i w opts] stream_events_inflight [of i w opts]
    deliver_batches [of opts sc]
  by (simp add: timer_fire_def)

theorem tick_starts_scan_with_own_batches_witness:
  "intervalActive world_scanning \<and> checkInProgress world_scanning
   \<and> (0 :: nat) < length (scans world_scanning)
   \<and> length (scans (timer_fire defaults world_scanning)) = 2
   \<and> scans (stream_events defaults 0 (timer_fire defaults world_scanning)) =
       drop 1 (scans (timer_fire defaults world_scanning))
   \<and> inflight (stream_events defaults 0 world_scanning) =
       [(Db, [del_op ''!ttl!x!1100!bar'', del_op ''!ttl!bar'', del_op ''bar''])]"
proof -
  have h1: "intervalActive world_scanning" and h1': "checkInProgress world_scanning"
    by code_simp+
  have h2: "(0 :: nat) < length (scans world_scanning)"
    by code_simp
  have l1: "length (scans world_scanning) = 1" by code_simp
  note t = tick_starts_scan_with_own_batches [of world_scanning defaults 0 "scans world_scanning ! 0"]
  have c1: "length (scans (timer_fire defaults world_scanning)) = 2"
    using t h1 l1 by simp
  have h3: "0 < length (scans (timer_fire defaults world_scanning))"
    using c1 by simp
  have c2: "scans (stream_events defaults 0 (timer_fire defaults world_scanning)) =
       drop 1 (scans (timer_fire defaults world_scanning))"
    using tick_starts_scan_with_own_batches [of "timer_fire defaults world_scanning" defaults 0] h3
    by simp
  have e: "s_error (scans world_scanning ! 0) = None" by code_simp
  have d: "inflight (on_end defaults (deliver defaults (scans world_scanning ! 0)) world_scanning) =
      [(Db, [del_op ''!ttl!x!1100!bar'', del_op ''!ttl!bar'', del_op ''bar''])]"
    by code_simp
  have c3: "inflight (stream_events defaults 0 world_scanning) =
       [(Db, [del_op ''!ttl!x!1100!bar'', del_op ''!ttl!bar'', del_op ''bar''])]"
    using t h2 e d by simp
  from h1 h1' h2 c1 c2 c3 show ?thesis by simp
qed

subsection \<open>The sweeper: stop\<close>







subsection \<open>The layout of the keys\<close>

lemma prefixKey_layout: "prefixKey opts key = marker_prefix opts @ key"
  by (simp add: prefixKey_def encode_def prefixNs_def marker_prefix_def)

lemma schedule_prefix_layout:
  "schedule_prefix opts = marker_prefix opts @ expiryNamespace opts @ separator opts"
  by (simp add: schedule_prefix_def encode_def expiryNs_def prefixNs_def marker_prefix_def)

lemma expiryKey_layout:
  "expiryKey opts d key = schedule_prefix opts @ encodeElement d @ separator opts @ key"
  by (simp add: expiryKey_def schedule_prefix_def encode_def expiryNs_def prefixNs_def)

lemma expiryKey_EDate: "expiryKey opts (EDate t) key = expiryKey opts (EStr (show_int t)) key"
  by (simp add: expiryKey_layout)

lemma query_layout:
  "gte (buildQuery opts now) @ separator opts = schedule_prefix opts"
  "lte (buildQuery opts now) = schedule_prefix opts @ show_int now"
  by (simp_all add: buildQuery_def schedule_prefix_def encode_def expiryNs_def prefixNs_def)

lemma is_schedule_key_expiryKey:
  "is_schedule_key opts key (expiryKey opts d key) \<longleftrightarrow> encodeElement d \<noteq> []"
  by (auto simp: is_schedule_key_def expiryKey_layout Let_def)

lemma not_schedule_key_prefixKey: "\<not> is_schedule_key opts key (prefixKey opts key)"
  by (simp add: is_schedule_key_def prefixKey_layout schedule_prefix_layout Let_def)

lemma prefixKey_neq_expiryKey:
  "encodeElement d \<noteq> [] \<Longrightarrow> prefixKey opts key \<noteq> expiryKey opts d key"
  using is_schedule_key_expiryKey [of opts key d] not_schedule_key_prefixKey [of opts key]
  by auto

lemma show_int_nonempty [simp]: "show_int t \<noteq> []"
  by (simp add: show_int_def)

subsection \<open>The range of the sweep\<close>

lemma entryStream_set: "set (entryStream s q) = {d \<in> set s. in_range q (fst d)}"
  by (auto simp: entryStream_def)

lemma gte_le_expiryKey: "gte (buildQuery opts now) \<le> expiryKey opts d key"
proof -
  have "expiryKey opts d key =
          gte (buildQuery opts now) @ (separator opts @ encodeElement d @ separator opts @ key)"
    using query_layout(1) [of opts now] by (simp add: expiryKey_layout [of opts d key])
  then show ?thesis by (simp only: string_le_self_append)
qed

lemma expiryKey_le_lte:
  "expiryKey opts d key \<le> lte (buildQuery opts now)
     \<longleftrightarrow> encodeElement d @ separator opts @ key \<le> show_int now"
  by (simp add: expiryKey_layout query_layout)

lemma due_iff_earlier:
  assumes "separator opts \<noteq> []" and "0 \<le> t" and "0 \<le> now"
      and "length (show_int t) = length (show_int now)"
  shows "in_range (buildQuery opts now) (expiryKey opts (EDate t) key) \<longleftrightarrow> t < now"
proof -
  let ?r = "separator opts @ key"
  have st: "show_int t = show_nat (nat t)" and sn: "show_int now = show_nat (nat now)"
    using assms(2,3) by (simp_all add: show_int_def)
  have len: "length (show_nat (nat t)) = length (show_nat (nat now))"
    using assms(4) st sn by simp
  have "show_int t @ ?r \<le> show_int now \<longleftrightarrow> t < now"
  proof (cases "t < now")
    case True
    then have "nat t < nat now" using assms(2) by simp
    from show_nat_less [OF len this, of ?r "[]"] True show ?thesis
      by (simp add: st sn)
  next
    case False
    show ?thesis
    proof (cases "t = now")
      case True
      have "\<not> show_int now @ ?r \<le> show_int now @ []"
        using assms(1) by (simp only: string_append_le) simp
      with True show ?thesis by simp
    next
      case False
      with \<open>\<not> t < now\<close> have "nat now < nat t" using assms(3) by simp
      from show_nat_less [OF len [symmetric] this, of "[]" ?r]
      have "show_int now < show_int t @ ?r" by (simp add: st sn)
      then have "\<not> show_int t @ ?r \<le> show_int now" by simp
      with \<open>\<not> t < now\<close> show ?thesis by simp
    qed
  qed
  then show ?thesis
    by (simp add: in_range_def gte_le_expiryKey expiryKey_le_lte)
qed

text \<open>
  C2, as stated, fails: at the millisecond at which the ttl of \<^verbatim>\<open>bar\<close> runs out, the
  timestamp of its ScheduleEntry equals the current time, its key
  \<^verbatim>\<open>!ttl!x!1100!bar\<close> lies above the upper bound \<^verbatim>\<open>!ttl!x!1100\<close> of the
  query, and the scan of that tick matches nothing.
\<close>

theorem entry_due_now_not_matched:
  "(expiryKey defaults (EDate 1100) ''bar'', ''bar'') \<in> set (metaStore defaults world_at_expiry)
   \<and> (1100 :: int) \<le> clock world_at_expiry
   \<and> lte (buildQuery defaults (clock world_at_expiry)) = ''!ttl!x!1100''
   \<and> \<not> in_range (buildQuery defaults (clock world_at_expiry)) (expiryKey defaults (EDate 1100) ''bar'')
   \<and> entryStream (metaStore defaults world_at_expiry) (buildQuery defaults (clock world_at_expiry))
       = []"
  by code_simp

text \<open>
  C2, as amended. For every sweep cycle: the stream delivers the entries of the index
  store whose key lies in the range of the query; with a separator that is not empty and
  timestamps written with as many digits as the current time (as all millisecond
  timestamps of thirteen digits are), a ScheduleEntry lies in that range exactly when its
  timestamp is strictly less than the current time. For each delivered entry the scan
  queues three deletions, in this order: the ScheduleEntry and the ExpiryMarker of the
  key in \<^verbatim>\<open>subBatch\<close>, the DataEntry in \<^verbatim>\<open>batch\<close>. At the end of the stream, if
  anything was queued, the scan issues one batch on \<^verbatim>\<open>db\<close> holding all the
  deletions when no sub-store is configured, and otherwise the batch of the index on the
  sub-store first and the batch of the data on \<^verbatim>\<open>db\<close> second.
\<close>

theorem sweep_matches_and_deletes:
  "set (entryStream s q) = {d \<in> set s. in_range q (fst d)}
   \<and> (separator opts \<noteq> [] \<and> 0 \<le> t \<and> 0 \<le> now \<and> length (show_int t) = length (show_int now) \<longrightarrow>
        (in_range (buildQuery opts now) (expiryKey opts (EDate t) key) \<longleftrightarrow> t < now))
   \<and> s_subBatch (deliver opts sc) =
        s_subBatch sc @ concat (map (\<lambda>d. [del_op (fst d), del_op (prefixKey opts (decode (snd d)))])
                                (s_pending sc))
   \<and> s_batch (deliver opts sc) = s_batch sc @ map (\<lambda>d. del_op (decode (snd d))) (s_pending sc)
   \<and> inflight (on_end opts sc w) =
        inflight w @ (if s_batch sc = [] then []
                      else if sub opts then [(Sub, s_subBatch sc), (Db, s_batch sc)]
                      else [(Db, s_subBatch sc @ s_batch sc)])"
  using entryStream_set [of s q] due_iff_earlier [of opts t now key] deliver_batches [of opts sc]
    on_end_inflight [of opts sc w]
  by blast

theorem sweep_matches_and_deletes_witness:
  "separator defaults \<noteq> [] \<and> (0 :: int) \<le> 1100 \<and> (0 :: int) \<le> 1200
   \<and> length (show_int 1100) = length (show_int 1200)
   \<and> in_range (buildQuery defaults 1200) (expiryKey defaults (EDate 1100) ''bar'')
   \<and> \<not> in_range (buildQuery defaults 1100) (expiryKey defaults (EDate 1100) ''bar'')
   \<and> \<not> in_range (buildQuery defaults 1100) (expiryKey defaults (EDate 1200) ''bar'')
   \<and> length (show_int 1700000000000) = length (show_int 1700000000001)
   \<and> in_range (buildQuery defaults 1700000000001) (expiryKey defaults (EDate 1700000000000) ''bar'')"
proof -
  have h1: "separator defaults \<noteq> []" by (simp add: defaults_def)
  have h2: "length (show_int 1100) = length (show_int 1200)" by code_simp
  have h3: "length (show_int 1200) = length (show_int 1100)" by code_simp
  have h4: "length (show_int 1700000000000) = length (show_int 1700000000001)"
    by (simp add: show_int_def show_nat.simps)
  have c1: "in_range (buildQuery defaults 1200) (expiryKey defaults (EDate 1100) ''bar'')"
    using sweep_matches_and_deletes [where opts = defaults and t = 1100 and now = 1200
        and key = "''bar''"] h1 h2
    by simp
  have c2: "\<not> in_range (buildQuery defaults 1100) (expiryKey defaults (EDate 1100) ''bar'')"
    using sweep_matches_and_deletes [where opts = defaults and t = 1100 and now = 1100
        and key = "''bar''"] h1
    by simp
  have c3: "\<not> in_range (buildQuery defaults 1100) (expiryKey defaults (EDate 1200) ''bar'')"
    using sweep_matches_and_deletes [where opts = defaults and t = 1200 and now = 1100
        and key = "''bar''"] h1 h3
    by simp
  have c4: "in_range (buildQuery defaults 1700000000001)
              (expiryKey defaults (EDate 1700000000000) ''bar'')"
    using sweep_matches_and_deletes [where opts = defaults and t = 1700000000000
        and now = 1700000000001 and key = "''bar''"] h1 h4
    by simp
  from h1 h2 h4 c1 c2 c3 c4 show ?thesis by simp
qed

subsection \<open>The error emitter and the lock\<close>

lemma emit_listener:
  "errorListener w \<Longrightarrow> emit e w = (None, w\<lparr>emitted := emitted w @ [e]\<rparr>)"
  by (simp add: emit_def)

lemma emit_no_listener: "\<not> errorListener w \<Longrightarrow> emit e w = (Some e, w)"
  by (simp add: emit_def)

lemma lock_keys_free:
  "distinct keys \<Longrightarrow> set keys \<inter> set h = {} \<Longrightarrow> lock_keys keys h = (True, h @ keys)"
  by (induction keys arbitrary: h) auto

lemma lock_keys_obtained:
  "fst (lock_keys keys h) \<longleftrightarrow> distinct keys \<and> set keys \<inter> set h = {}"
proof (induction keys arbitrary: h)
  case Nil
  then show ?case by simp
next
  case (Cons k ks)
  show ?case
  proof (cases "k \<in> set h")
    case True
    then show ?thesis by auto
  next
    case False
    then show ?thesis using Cons.IH [of "h @ [k]"] by auto
  qed
qed

lemma lockable_lock_keys: "lockable keys w \<Longrightarrow> lock_keys keys (held w) = (True, held w @ keys)"
  by (auto simp: lockable_def list_all_iff intro: lock_keys_free)

lemma release_after_acquire:
  "lockable keys w \<Longrightarrow> filter (\<lambda>k. k \<notin> set keys) (held w @ keys) = held w"
  by (auto simp: lockable_def list_all_iff filter_id_conv filter_empty_conv)

text \<open>What a call on the store leaves as it is; and a store with no fault to come
  raises no failure in a lookup or in a well-formed batch.\<close>

lemma host_get_frame:
  "errorListener (snd (host_get tgt k w)) = errorListener w
   \<and> held (snd (host_get tgt k w)) = held w
   \<and> emitted (snd (host_get tgt k w)) = emitted w
   \<and> uncaught (snd (host_get tgt k w)) = uncaught w
   \<and> (faults w = [] \<longrightarrow> faults (snd (host_get tgt k w)) = []
        \<and> (\<exists>v. fst (host_get tgt k w) = Inr v))"
  by (simp add: host_get_cases split: list.splits option.splits)

lemma host_batch_frame:
  "errorListener (snd (host_batch tgt arr w)) = errorListener w
   \<and> held (snd (host_batch tgt arr w)) = held w
   \<and> emitted (snd (host_batch tgt arr w)) = emitted w
   \<and> uncaught (snd (host_batch tgt arr w)) = uncaught w"
  by (simp add: host_batch_def take_fault_def log_event_def set_store_def Let_def
      split: list.splits option.splits target.splits)

lemma batchFn_quiet:
  "valid_ops b \<Longrightarrow> faults w = [] \<Longrightarrow>
   fst (batchFn opts b w) = Inr () \<and> faults (snd (batchFn opts b w)) = []"
  by (simp add: batchFn_def host_batch_cases set_store_def split: target.splits)

lemma ttloff_lookup_frame:
  "errorListener (snd (ttloff_lookup opts key w)) = errorListener w
   \<and> held (snd (ttloff_lookup opts key w)) = held w
   \<and> emitted (snd (ttloff_lookup opts key w)) = emitted w
   \<and> uncaught (snd (ttloff_lookup opts key w)) = uncaught w
   \<and> (faults w = [] \<longrightarrow> faults (snd (ttloff_lookup opts key w)) = []
        \<and> (\<exists>b. fst (ttloff_lookup opts key w) = Inr b))"
  using host_get_frame [of "metaTarget opts" "prefixKey opts key" w]
  by (auto simp: ttloff_lookup_def getFn_def Let_def split: prod.splits sum.splits option.splits)

lemma ttloff_lookups_frame:
  "errorListener (snd (ttloff_lookups opts keys w)) = errorListener w
   \<and> held (snd (ttloff_lookups opts keys w)) = held w
   \<and> emitted (snd (ttloff_lookups opts keys w)) = emitted w
   \<and> uncaught (snd (ttloff_lookups opts keys w)) = uncaught w
   \<and> (faults w = [] \<longrightarrow> faults (snd (ttloff_lookups opts keys w)) = []
        \<and> (\<exists>b. fst (ttloff_lookups opts keys w) = Inr b))"
proof (induction keys arbitrary: w)
  case Nil
  then show ?case by simp
next
  case (Cons key keys)
  show ?case
    using ttloff_lookup_frame [of opts key w]
      Cons.IH [of "snd (ttloff_lookup opts key w)"]
    by (auto split: prod.splits sum.splits)
qed

lemma catch_emit_listener:
  "errorListener w \<Longrightarrow> catch_emit e w = (Inr (), w\<lparr>emitted := emitted w @ [e]\<rparr>)"
  by (simp add: catch_emit_def emit_def)

lemma catch_emit_no_listener:
  "\<not> errorListener w \<Longrightarrow> catch_emit e w = (Inl (Rejected e), w)"
  by (simp add: catch_emit_def emit_def)

lemma batchFn_frame:
  assumes "batchFn opts b w = (r, w')"
  shows "errorListener w' = errorListener w \<and> held w' = held w
         \<and> emitted w' = emitted w \<and> uncaught w' = uncaught w"
  using host_batch_frame [of "metaTarget opts" "map Some b" w] assms
  by (simp add: batchFn_def)

lemma ttloff_finish_cases:
  "ttloff_finish opts r w =
     (case r of
        Inl err \<Rightarrow> if errorListener w then (Inr (), w\<lparr>emitted := emitted w @ [err]\<rparr>)
                    else (Inl (Rejected err), w)
      | Inr b \<Rightarrow>
          if b = [] then (Inr (), w)
          else (case batchFn opts b w of
                  (Inl err, w2) \<Rightarrow>
                    if errorListener w then (Inr (), w2\<lparr>emitted := emitted w @ [err]\<rparr>)
                    else (Inl (Rejected err), w2)
                | (Inr _, w2) \<Rightarrow> (Inr (), w2)))"
proof (cases r)
  case (Inl err)
  then show ?thesis by (simp add: ttloff_finish_def catch_emit_def emit_def)
next
  case (Inr b)
  obtain r2 w2 where b: "batchFn opts b w = (r2, w2)" by force
  show ?thesis
    using batchFn_frame [OF b]
    by (simp add: ttloff_finish_def Inr b catch_emit_def emit_def split: sum.splits)
qed

lemma ttloff_finish_frame:
  "errorListener (snd (ttloff_finish opts r w)) = errorListener w
   \<and> held (snd (ttloff_finish opts r w)) = held w
   \<and> uncaught (snd (ttloff_finish opts r w)) = uncaught w"
proof (cases r)
  case (Inl err)
  then show ?thesis by (simp add: ttloff_finish_cases)
next
  case (Inr b)
  obtain r2 w2 where b: "batchFn opts b w = (r2, w2)" by force
  show ?thesis
    using batchFn_frame [OF b] by (simp add: ttloff_finish_cases Inr b split: sum.splits)
qed

lemma ttloff_finish_outcome:
  "fst (ttloff_finish opts r w) = Inr ()
   \<or> \<not> errorListener w \<and> (\<exists>e. fst (ttloff_finish opts r w) = Inl (Rejected e))"
  by (simp add: ttloff_finish_cases split: sum.splits prod.splits)

lemma ttloff_finish_no_throw:
  assumes "errorListener w \<or> faults w = [] \<and> r = Inr b \<and> valid_ops b"
  shows "fst (ttloff_finish opts r w) = Inr () \<and> no_throw (snd (ttloff_finish opts r w))"
proof (cases "errorListener w")
  case True
  then show ?thesis
    using ttloff_finish_outcome [of opts r w] ttloff_finish_frame [of opts r w]
    by (auto simp: no_throw_def)
next
  case False
  with assms have f: "faults w = []" and r: "r = Inr b" and v: "valid_ops b" by auto
  show ?thesis
    using batchFn_quiet [OF v f, of opts]
    by (auto simp: ttloff_finish_cases r f no_throw_def split: prod.splits sum.splits)
qed

lemma ttloff_frame:
  "errorListener (snd (ttloff opts keys w)) = errorListener w
   \<and> held (snd (ttloff opts keys w)) = held w
   \<and> uncaught (snd (ttloff opts keys w)) = uncaught w"
  using ttloff_lookups_frame [of opts keys w]
    ttloff_finish_frame [of opts "fst (ttloff_lookups opts keys w)" "snd (ttloff_lookups opts keys w)"]
  by (cases "ttloff_lookups opts keys w") (simp add: ttloff_def)


lemma ttloff_resolves:
  assumes "no_throw w"
  shows "fst (ttloff opts keys w) = Inr () \<and> no_throw (snd (ttloff opts keys w))"
proof -
  obtain r w1 where l: "ttloff_lookups opts keys w = (r, w1)" by force
  have "errorListener w1 \<or> faults w1 = [] \<and> (\<exists>b. r = Inr b \<and> valid_ops b)"
    using assms ttloff_lookups_frame [of opts keys w] l ttloff_lookups_valid [of opts keys w _ w1]
    by (auto simp: no_throw_def)
  then show ?thesis
    using ttloff_finish_no_throw [of w1 r _ opts] l by (auto simp: ttloff_def)
qed

subsection \<open>The events of the index maintenance\<close>

lemma new_events_append [simp]: "trace w' = trace w @ evs \<Longrightarrow> new_events w w' = evs"
  by (simp add: new_events_def)

lemma host_get_trace: "trace (snd (host_get tgt k w)) = trace w @ [EvGet tgt k]"
  by (simp add: host_get_cases split: list.splits option.splits)

lemma host_batch_trace: "trace (snd (host_batch tgt arr w)) = trace w @ [EvBatch tgt arr]"
  by (simp add: host_batch_def take_fault_def log_event_def set_store_def Let_def
      split: list.splits option.splits target.splits)

lemma host_del_trace: "trace (snd (host_del key w)) = trace w @ [EvDel key]"
  by (simp add: host_del_def take_fault_def log_event_def Let_def
      split: list.splits option.splits)



lemma host_del_frame:
  "errorListener (snd (host_del key w)) = errorListener w
   \<and> held (snd (host_del key w)) = held w"
  by (simp add: host_del_def take_fault_def log_event_def Let_def
      split: list.splits option.splits)

lemma ttloff_lookup_trace:
  "trace (snd (ttloff_lookup opts key w)) = trace w @ [EvGet (metaTarget opts) (prefixKey opts key)]"
  using host_get_trace [of "metaTarget opts" "prefixKey opts key" w]
  by (auto simp: ttloff_lookup_def getFn_def Let_def split: prod.splits sum.splits option.splits)

lemma ttloff_lookups_trace:
  "trace (snd (ttloff_lookups opts keys w)) =
     trace w @ map (\<lambda>key. EvGet (metaTarget opts) (prefixKey opts key)) keys"
proof (induction keys arbitrary: w)
  case Nil
  then show ?case by simp
next
  case (Cons key keys)
  show ?case
    using ttloff_lookup_trace [of opts key w]
      Cons.IH [of "snd (ttloff_lookup opts key w)"]
    by (auto split: prod.splits)
qed

lemma no_lock_in_lookups [simp]:
  "filter is_lock_event (map (\<lambda>key. EvGet tgt (f key)) keys) = []"
  by (induction keys) simp_all

lemma batchFn_trace:
  "trace (snd (batchFn opts b w)) = trace w @ [EvBatch (metaTarget opts) (map Some b)]"
  by (simp add: batchFn_def host_batch_trace)

lemma ttloff_finish_trace:
  "\<exists>evs. trace (snd (ttloff_finish opts r w)) = trace w @ evs \<and> filter is_lock_event evs = []"
proof (cases r)
  case (Inl err)
  then show ?thesis by (simp add: ttloff_finish_cases)
next
  case (Inr b)
  obtain r2 w2 where b: "batchFn opts b w = (r2, w2)" by force
  have "trace w2 = trace w @ [EvBatch (metaTarget opts) (map Some b)]"
    using batchFn_trace [of opts b w] b by simp
  then show ?thesis
    by (cases r2) (simp_all add: ttloff_finish_cases Inr b)
qed

lemma ttloff_trace:
  "\<exists>evs. trace (snd (ttloff opts keys w)) = trace w @ evs \<and> filter is_lock_event evs = []"
proof -
  obtain r w1 where l: "ttloff_lookups opts keys w = (r, w1)" by force
  have t1: "trace w1 = trace w @ map (\<lambda>key. EvGet (metaTarget opts) (prefixKey opts key)) keys"
    using ttloff_lookups_trace [of opts keys w] l by simp
  obtain evs where "trace (snd (ttloff_finish opts r w1)) = trace w1 @ evs"
    "filter is_lock_event evs = []"
    using ttloff_finish_trace by blast
  with t1 l show ?thesis by (simp add: ttloff_def)
qed

text \<open>The callback of \<^verbatim>\<open>ttlon\<close> after a \<^verbatim>\<open>ttloff\<close> that resolved.\<close>

lemma ttlon_catch_listener:
  "errorListener w \<Longrightarrow>
   ttlon_catch keys e w = (Inr (), release keys (w\<lparr>emitted := emitted w @ [e]\<rparr>))"
  by (simp add: ttlon_catch_def emit_def)

lemma ttlon_catch_no_listener:
  "\<not> errorListener w \<Longrightarrow>
   ttlon_catch keys e w = (Inl Pending, w\<lparr>uncaught := uncaught w @ [e]\<rparr>)"
  by (simp add: ttlon_catch_def emit_def)

lemma ttlon_write_released:
  assumes "no_throw w"
  shows "\<exists>evs. fst (ttlon_write opts keys t (Inr ()) w) = Inr ()
           \<and> trace (snd (ttlon_write opts keys t (Inr ()) w)) = trace w @ evs @ [EvRelease keys]
           \<and> filter is_lock_event evs = []
           \<and> held (snd (ttlon_write opts keys t (Inr ()) w)) = filter (\<lambda>k. k \<notin> set keys) (held w)
           \<and> no_throw (snd (ttlon_write opts keys t (Inr ()) w))"
proof (cases "ttlon_batch opts t keys = []")
  case True
  with assms show ?thesis
    by (simp add: ttlon_write_def release_def log_event_def no_throw_def)
next
  case False
  let ?b = "ttlon_batch opts t keys"
  obtain r2 w2 where b: "batchFn opts ?b w = (r2, w2)" by force
  have tr: "trace w2 = trace w @ [EvBatch (metaTarget opts) (map Some ?b)]"
    using batchFn_trace [of opts ?b w] b by simp
  note fr = batchFn_frame [OF b]
  show ?thesis
  proof (cases r2)
    case (Inr u)
    have "no_throw w2"
    proof (cases "errorListener w")
      case True
      with fr show ?thesis by (simp add: no_throw_def)
    next
      case False
      with assms have "faults w = []" by (simp add: no_throw_def)
      then show ?thesis
        using batchFn_quiet [of ?b w opts] b by (simp add: no_throw_def)
    qed
    with False b Inr tr fr show ?thesis
      by (simp add: ttlon_write_def Let_def release_def log_event_def no_throw_def)
  next
    case (Inl err)
    have l: "errorListener w"
    proof (rule ccontr)
      assume "\<not> errorListener w"
      with assms have "faults w = []" by (simp add: no_throw_def)
      then show False
        using batchFn_quiet [of ?b w opts] b Inl by simp
    qed
    with fr have l2: "errorListener w2" by simp
    from False b Inl tr fr l show ?thesis
      by (simp add: ttlon_write_def Let_def ttlon_catch_listener [OF l2] release_def
          log_event_def no_throw_def)
  qed
qed

text \<open>\<^verbatim>\<open>ttlon\<close> whose keys can be locked, in terms of \<^verbatim>\<open>ttloff\<close>.\<close>

lemma acquire_lockable:
  "lockable keys w \<Longrightarrow>
   acquire keys w = (True, w\<lparr>trace := trace w @ [EvAcquire keys], held := held w @ keys\<rparr>)"
  by (simp add: acquire_def lockable_lock_keys log_event_def)

lemma ttlon_lockable:
  assumes "lockable keys w"
  shows "ttlon opts keys ttl w =
     (case ttloff opts keys (snd (acquire keys w)) of
        (c, w2) \<Rightarrow> ttlon_write opts keys (new_Date (clock w + ttl)) c w2)"
  by (simp add: ttlon_def acquire_lockable [OF assms] Let_def)

lemma ttlon_blocked:
  assumes "\<not> lockable keys w"
  shows "fst (ttlon opts keys ttl w) = Inl Pending
         \<and> trace (snd (ttlon opts keys ttl w)) = trace w @ [EvAcquire keys]
         \<and> dbStore (snd (ttlon opts keys ttl w)) = dbStore w
         \<and> subStore (snd (ttlon opts keys ttl w)) = subStore w"
proof -
  have "\<not> fst (lock_keys keys (held w))"
    using assms by (auto simp: lock_keys_obtained lockable_def list_all_iff)
  then obtain h where "lock_keys keys (held w) = (False, h)"
    by (cases "lock_keys keys (held w)") simp
  then show ?thesis
    by (simp add: ttlon_def acquire_def log_event_def)
qed

lemma ttlon_settles:
  assumes "no_throw w" and "lockable keys w"
  shows "fst (ttlon opts keys ttl w) = Inr ()
         \<and> held (snd (ttlon opts keys ttl w)) = held w
         \<and> no_throw (snd (ttlon opts keys ttl w))
         \<and> (\<exists>mid. trace (snd (ttlon opts keys ttl w)) =
                     trace w @ EvAcquire keys # mid @ [EvRelease keys]
                   \<and> filter is_lock_event mid = [])"
proof -
  let ?w1 = "snd (acquire keys w)"
  have w1: "?w1 = w\<lparr>trace := trace w @ [EvAcquire keys], held := held w @ keys\<rparr>"
    by (simp add: acquire_lockable [OF assms(2)])
  have n1: "no_throw ?w1" using assms(1) by (simp add: w1 no_throw_def)
  obtain c w2 where off: "ttloff opts keys ?w1 = (c, w2)" by force
  have c: "c = Inr ()" and n2: "no_throw w2"
    using ttloff_resolves [OF n1, of opts keys] off by simp_all
  have h2: "held w2 = held w @ keys"
    using ttloff_frame [of opts keys ?w1] off by (simp add: w1)
  obtain evs where evs: "trace w2 = trace ?w1 @ evs" "filter is_lock_event evs = []"
    using ttloff_trace [of opts keys ?w1] off by auto
  obtain evs' where wr:
    "fst (ttlon_write opts keys (new_Date (clock w + ttl)) (Inr ()) w2) = Inr ()"
    "trace (snd (ttlon_write opts keys (new_Date (clock w + ttl)) (Inr ()) w2)) =
       trace w2 @ evs' @ [EvRelease keys]"
    "filter is_lock_event evs' = []"
    "held (snd (ttlon_write opts keys (new_Date (clock w + ttl)) (Inr ()) w2)) =
       filter (\<lambda>k. k \<notin> set keys) (held w2)"
    "no_throw (snd (ttlon_write opts keys (new_Date (clock w + ttl)) (Inr ()) w2))"
    using ttlon_write_released [OF n2] by blast
  have eq: "ttlon opts keys ttl w = ttlon_write opts keys (new_Date (clock w + ttl)) (Inr ()) w2"
    by (simp add: ttlon_lockable [OF assms(2)] off c)
  have "trace (snd (ttlon opts keys ttl w)) =
          trace w @ EvAcquire keys # (evs @ evs') @ [EvRelease keys]"
    using wr(2) evs(1) by (simp add: eq w1)
  moreover have "filter is_lock_event (evs @ evs') = []"
    using evs(2) wr(3) by simp
  ultimately have "\<exists>mid. trace (snd (ttlon opts keys ttl w)) =
                     trace w @ EvAcquire keys # mid @ [EvRelease keys]
                   \<and> filter is_lock_event mid = []"
    by blast
  then show ?thesis
    using wr(1,4,5) h2 release_after_acquire [OF assms(2)] by (simp add: eq)
qed

subsection \<open>Outcomes of the wrapped operations\<close>

lemma promise_all2_resolved [simp]:
  "promise_all2 r (Inr ()) = r" "promise_all2 (Inr ()) r = r"
proof -
  show "promise_all2 r (Inr ()) = r"
  proof (cases r)
    case (Inl f)
    then show ?thesis by (cases f) simp_all
  next
    case (Inr u)
    then show ?thesis by simp
  qed
  show "promise_all2 (Inr ()) r = r"
  proof (cases r)
    case (Inl f)
    then show ?thesis by (cases f) simp_all
  next
    case (Inr u)
    then show ?thesis by simp
  qed
qed











subsection \<open>Where a storage failure of the index maintenance goes\<close>








text \<open>With no listener attached the emitter throws the failure: \<^verbatim>\<open>ttloff\<close> rejects
  with it, so that \<^verbatim>\<open>del\<close> rejects before it reaches the data entry; and the callback
  of \<^verbatim>\<open>ttlon\<close> never calls \<^verbatim>\<open>release()\<close>, so that the key stays locked and \<^verbatim>\<open>put\<close>
  never settles.\<close>

lemma del_rejects_without_listener:
  "del defaults (Some ''bar'') (world_sf\<lparr>errorListener := False\<rparr>) =
     (Inl (Rejected STORAGE_FAILURE),
      world_bar\<lparr>errorListener := False, trace := [EvGet Db ''!ttl!bar'']\<rparr>)"
  by code_simp

lemma put_pending_without_listener:
  "put defaults (Some ''bar'') (Some ''barvalue'') (Some 100)
       (world_fail\<lparr>errorListener := False\<rparr>) =
     (Inl Pending,
      world0\<lparr>dbStore := [(''bar'', ''barvalue'')], errorListener := False,
             held := [''bar''], uncaught := [STORAGE_FAILURE],
             trace := [EvPut (Some ''bar'') (Some ''barvalue''), EvAcquire [''bar''],
                       EvGet Db ''!ttl!bar'',
                       EvBatch Db [Some (put_op ''!ttl!x!1100!bar'' ''bar''),
                                   Some (put_op ''!ttl!bar'' ''1100'')]]\<rparr>)"
  by code_simp


subsection \<open>The lock\<close>

lemma ttlon_write_trace:
  "\<exists>evs. trace (snd (ttlon_write opts keys t c w)) = trace w @ evs"
proof -
  let ?b = "ttlon_batch opts t keys"
  obtain r2 w2 where b: "batchFn opts ?b w = (r2, w2)" by force
  have tr: "trace w2 = trace w @ [EvBatch (metaTarget opts) (map Some ?b)]"
    using batchFn_trace [of opts ?b w] b by simp
  show ?thesis
  proof (cases c)
    case (Inl f)
    then show ?thesis
      by (cases f)
        (simp_all add: ttlon_write_def ttlon_catch_def emit_def release_def log_event_def)
  next
    case (Inr u)
    then show ?thesis
      using b tr
      by (cases r2)
        (simp_all add: ttlon_write_def Let_def ttlon_catch_def emit_def release_def
          log_event_def)
  qed
qed

lemma ttlon_acquires_first:
  "\<exists>evs. trace (snd (ttlon opts keys ttl w)) = trace w @ EvAcquire keys # evs"
proof (cases "lockable keys w")
  case False
  then show ?thesis
    using ttlon_blocked [OF False, of opts ttl] by simp
next
  case True
  let ?w1 = "snd (acquire keys w)"
  have t1: "trace ?w1 = trace w @ [EvAcquire keys]"
    by (simp add: acquire_lockable [OF True])
  obtain c w2 where off: "ttloff opts keys ?w1 = (c, w2)" by force
  obtain evs where e: "trace w2 = trace ?w1 @ evs"
    using ttloff_trace [of opts keys ?w1] off by auto
  obtain evs' where e': "trace (snd (ttlon_write opts keys (new_Date (clock w + ttl)) c w2)) =
      trace w2 @ evs'"
    using ttlon_write_trace by blast
  have "trace (snd (ttlon opts keys ttl w)) = trace w @ EvAcquire keys # (evs @ evs')"
    using e e' t1 by (simp add: ttlon_lockable [OF True] off)
  then show ?thesis by blast
qed

lemma del_no_lock:
  "filter is_lock_event (new_events w (snd (del opts key w))) = []
   \<and> held (snd (del opts key w)) = held w"
proof (cases key)
  case None
  then show ?thesis
    using host_del_trace [of None w] host_del_frame [of None w]
    by (simp add: del_def case_prod_beta)
next
  case (Some k)
  obtain c w1 where off: "ttloff opts [k] w = (c, w1)" by force
  obtain evs where e: "trace w1 = trace w @ evs" "filter is_lock_event evs = []"
    using ttloff_trace [of opts "[k]" w] off by auto
  have h: "held w1 = held w"
    using ttloff_frame [of opts "[k]" w] off by simp
  show ?thesis
  proof (cases c)
    case (Inl f)
    with Some off e h show ?thesis by (simp add: del_def)
  next
    case (Inr u)
    have "trace (snd (host_del key w1)) = trace w @ evs @ [EvDel key]"
      using host_del_trace [of key w1] e by simp
    with Some off e h Inr host_del_frame [of key w1] show ?thesis
      by (simp add: del_def case_prod_beta)
  qed
qed

text \<open>
  C5, as stated, fails: \<^verbatim>\<open>del('bar')\<close> on the store that holds \<^verbatim>\<open>bar\<close> with a ttl
  deletes the marker and the ScheduleEntry of \<^verbatim>\<open>bar\<close> in a batch on the index, and the
  lock is neither acquired nor released.
\<close>

theorem del_mutates_index_without_lock:
  "new_events world_bar (snd (del defaults (Some ''bar'') world_bar)) =
     [EvGet Db ''!ttl!bar'',
      EvBatch Db [Some (del_op ''!ttl!x!1100!bar''), Some (del_op ''!ttl!bar'')],
      EvDel (Some ''bar'')]"
  by code_simp

text \<open>
  C5, as amended. Every \<^verbatim>\<open>ttlon\<close> asks for the lock on its keys before its first call
  on the expiry index, and while one of its keys is held it makes no call on the store.
  When its keys can be locked (no key listed twice, none held) and the error emitter is
  not going to throw (a listener is attached, or no call on the store fails), it
  resolves, and the events it adds to the trace are the acquisition, calls on the
  store, and the release, which leaves the keys free, whether or not a call on the
  store failed. \<^verbatim>\<open>ttloff\<close> itself takes no lock, so the clearing that \<^verbatim>\<open>del\<close> and
  \<^verbatim>\<open>batch\<close> start runs outside the lock.
\<close>

theorem lock_around_ttlon_only:
  "(\<exists>evs. new_events w (snd (ttlon opts keys ttl w)) = EvAcquire keys # evs)
   \<and> (distinct keys \<and> \<not> list_all (\<lambda>k. k \<notin> set (held w)) keys \<longrightarrow>
        new_events w (snd (ttlon opts keys ttl w)) = [EvAcquire keys]
        \<and> dbStore (snd (ttlon opts keys ttl w)) = dbStore w
        \<and> subStore (snd (ttlon opts keys ttl w)) = subStore w)
   \<and> (no_throw w \<and> lockable keys w \<longrightarrow>
        fst (ttlon opts keys ttl w) = Inr ()
        \<and> held (snd (ttlon opts keys ttl w)) = held w
        \<and> (\<exists>mid. new_events w (snd (ttlon opts keys ttl w)) =
                    EvAcquire keys # mid @ [EvRelease keys]
                  \<and> filter is_lock_event mid = []))
   \<and> filter is_lock_event (new_events w (snd (ttloff opts keys w))) = []
   \<and> held (snd (ttloff opts keys w)) = held w
   \<and> filter is_lock_event (new_events w (snd (del opts key w))) = []
   \<and> held (snd (del opts key w)) = held w"
proof -
  obtain evs where a: "trace (snd (ttlon opts keys ttl w)) = trace w @ EvAcquire keys # evs"
    using ttlon_acquires_first by blast
  have b: "distinct keys \<and> \<not> list_all (\<lambda>k. k \<notin> set (held w)) keys \<longrightarrow>
        new_events w (snd (ttlon opts keys ttl w)) = [EvAcquire keys]
        \<and> dbStore (snd (ttlon opts keys ttl w)) = dbStore w
        \<and> subStore (snd (ttlon opts keys ttl w)) = subStore w"
    using ttlon_blocked [of keys w opts ttl] by (simp add: lockable_def)
  have c: "no_throw w \<and> lockable keys w \<longrightarrow>
        fst (ttlon opts keys ttl w) = Inr ()
        \<and> held (snd (ttlon opts keys ttl w)) = held w
        \<and> (\<exists>mid. new_events w (snd (ttlon opts keys ttl w)) =
                    EvAcquire keys # mid @ [EvRelease keys]
                  \<and> filter is_lock_event mid = [])"
  proof
    assume h: "no_throw w \<and> lockable keys w"
    then obtain mid where m:
      "trace (snd (ttlon opts keys ttl w)) = trace w @ EvAcquire keys # mid @ [EvRelease keys]"
      "filter is_lock_event mid = []"
      using ttlon_settles [of w keys opts ttl] by blast
    have "new_events w (snd (ttlon opts keys ttl w)) = EvAcquire keys # mid @ [EvRelease keys]"
      using m(1) by simp
    with m(2) h ttlon_settles [of w keys opts ttl] show
      "fst (ttlon opts keys ttl w) = Inr ()
        \<and> held (snd (ttlon opts keys ttl w)) = held w
        \<and> (\<exists>mid. new_events w (snd (ttlon opts keys ttl w)) =
                    EvAcquire keys # mid @ [EvRelease keys]
                  \<and> filter is_lock_event mid = [])"
      by blast
  qed
  obtain evs' where e: "trace (snd (ttloff opts keys w)) = trace w @ evs'"
    "filter is_lock_event evs' = []"
    using ttloff_trace by blast
  from a b c e ttloff_frame [of opts keys w] del_no_lock [of w opts key] show ?thesis
    by simp
qed

theorem lock_around_ttlon_only_witness:
  "distinct [''bar''] \<and> \<not> list_all (\<lambda>k. k \<notin> set (held (world_bar\<lparr>held := [''bar'']\<rparr>))) [''bar'']
   \<and> new_events (world_bar\<lparr>held := [''bar'']\<rparr>)
        (snd (ttlon defaults [''bar''] 100 (world_bar\<lparr>held := [''bar'']\<rparr>))) = [EvAcquire [''bar'']]
   \<and> no_throw world_sf \<and> lockable [''bar''] world_sf
   \<and> fst (ttlon defaults [''bar''] 100 world_sf) = Inr ()
   \<and> held (snd (ttlon defaults [''bar''] 100 world_sf)) = held world_sf
   \<and> new_events world_sf (snd (ttlon defaults [''bar''] 100 world_sf)) =
        [EvAcquire [''bar''], EvGet Db ''!ttl!bar'',
         EvBatch Db [Some (put_op ''!ttl!x!1100!bar'' ''bar''), Some (put_op ''!ttl!bar'' ''1100'')],
         EvRelease [''bar'']]
   \<and> filter is_lock_event (new_events world_bar (snd (del defaults (Some ''bar'') world_bar))) = []"
proof -
  let ?wh = "world_bar\<lparr>held := [''bar'']\<rparr>"
  have h1: "distinct [''bar''] \<and> \<not> list_all (\<lambda>k. k \<notin> set (held ?wh)) [''bar'']"
    by simp
  have h2: "no_throw world_sf \<and> lockable [''bar''] world_sf"
    by (simp add: no_throw_def lockable_def world_sf_def world_bar_def world0_def)
  note t1 = lock_around_ttlon_only [where w = ?wh and opts = defaults and keys = "[''bar'']"
      and ttl = 100 and key = "Some ''bar''"]
  note t2 = lock_around_ttlon_only [where w = world_sf and opts = defaults and keys = "[''bar'']"
      and ttl = 100 and key = "Some ''bar''"]
  note t3 = lock_around_ttlon_only [where w = world_bar and opts = defaults and keys = "[''bar'']"
      and ttl = 100 and key = "Some ''bar''"]
  have c1: "new_events ?wh (snd (ttlon defaults [''bar''] 100 ?wh)) = [EvAcquire [''bar'']]"
    using t1 h1 by blast
  have c2: "fst (ttlon defaults [''bar''] 100 world_sf) = Inr ()"
    and c3: "held (snd (ttlon defaults [''bar''] 100 world_sf)) = held world_sf"
    using t2 h2 by blast+
  have c4: "new_events world_sf (snd (ttlon defaults [''bar''] 100 world_sf)) =
        [EvAcquire [''bar''], EvGet Db ''!ttl!bar'',
         EvBatch Db [Some (put_op ''!ttl!x!1100!bar'' ''bar''), Some (put_op ''!ttl!bar'' ''1100'')],
         EvRelease [''bar'']]"
    by code_simp
  have c5: "filter is_lock_event (new_events world_bar (snd (del defaults (Some ''bar'') world_bar))) = []"
    using t3 by blast
  from h1 h2 c1 c2 c3 c4 c5 show ?thesis by blast
qed

text \<open>A key listed twice is taken at its first position and never obtained at the
  second: the callback of \<^verbatim>\<open>ttlon\<close> does not run, and the call never settles.\<close>

lemma ttlon_repeated_key_blocks:
  "ttlon defaults [''a'', ''a''] 100 world0 =
     (Inl Pending, world0\<lparr>trace := [EvAcquire [''a'', ''a'']], held := [''a'']\<rparr>)"
  by code_simp

subsection \<open>Renewals\<close>

lemma store_of_set_store [simp]: "store_of tgt (set_store tgt x w) = x"
  by (simp add: store_of_def set_store_def split: target.splits)

lemma set_store_fields [simp]:
  "faults (set_store tgt x w) = faults w"
  "trace (set_store tgt x w) = trace w"
  "emitted (set_store tgt x w) = emitted w"
  "clock (set_store tgt x w) = clock w"
  "held (set_store tgt x w) = held w"
  "errorListener (set_store tgt x w) = errorListener w"
  by (simp_all add: set_store_def split: target.splits)

lemma apply_del_op [simp]: "apply_op (Some (del_op k)) s = AList.delete k s"
  by (simp add: del_op_def)

lemma apply_put_op [simp]: "apply_op (Some (put_op k v)) s = AList.update k v s"
  by (simp add: put_op_def)

lemma store_of_release [simp]: "store_of tgt (release ks w) = store_of tgt w"
  by (simp add: release_def log_event_def store_of_def split: target.splits)

lemma schedule_keys_alt:
  "schedule_keys opts key s = {sk \<in> fst ` set s. is_schedule_key opts key sk}"
  by (auto simp: schedule_keys_def)

lemma keys_delete: "fst ` set (AList.delete k s) = fst ` set s - {k}"
  using AList.delete_keys [of k s] by (metis list.set_map set_removeAll)

lemma renewed_live_pair:
  assumes "pair_or_none opts key s"
  shows "live_pair opts key (show_int t) (renewed opts key t s)"
proof -
  let ?PK = "prefixKey opts key" and ?EK = "expiryKey opts (EStr (show_int t)) key"
  have ne: "?PK \<noteq> ?EK"
    by (rule prefixKey_neq_expiryKey) simp
  have sk: "is_schedule_key opts key ?EK" "\<not> is_schedule_key opts key ?PK"
    by (simp_all add: is_schedule_key_expiryKey not_schedule_key_prefixKey)
  show ?thesis
  proof (cases "map_of s ?PK")
    case None
    with assms have "schedule_keys opts key s = {}" by (simp add: pair_or_none_def)
    with None ne sk show ?thesis
      by (auto simp: live_pair_def renewed_def expiryKey_EDate AList.update_conv'
          schedule_keys_alt AList.dom_update)
  next
    case (Some d)
    with assms have "schedule_keys opts key s = {expiryKey opts (EStr d) key}"
      by (simp add: pair_or_none_def)
    with Some ne sk show ?thesis
      by (auto simp: live_pair_def renewed_def expiryKey_EDate AList.update_conv'
          schedule_keys_alt AList.dom_update keys_delete)
  qed
qed

lemma live_pair_pair_or_none: "live_pair opts key d s \<Longrightarrow> pair_or_none opts key s"
  by (simp add: live_pair_def pair_or_none_def)

lemma ttloff_single:
  assumes "faults w = []"
  shows "ttloff opts [key] w =
     (Inr (),
      case map_of (metaStore opts w) (prefixKey opts key) of
        None \<Rightarrow> w\<lparr>trace := trace w @ [EvGet (metaTarget opts) (prefixKey opts key)]\<rparr>
      | Some d \<Rightarrow>
          set_store (metaTarget opts)
            (AList.delete (prefixKey opts key)
               (AList.delete (expiryKey opts (EStr d) key) (metaStore opts w)))
            (w\<lparr>trace := trace w @
                 [EvGet (metaTarget opts) (prefixKey opts key),
                  EvBatch (metaTarget opts)
                    [Some (del_op (expiryKey opts (EStr d) key)),
                     Some (del_op (prefixKey opts key))]]\<rparr>))"
proof (cases "map_of (metaStore opts w) (prefixKey opts key)")
  case None
  with assms show ?thesis
    by (simp add: ttloff_def ttloff_finish_cases ttloff_lookup_def getFn_def host_get_cases
        metaStore_def Let_def)
next
  case (Some d)
  have v: "valid_ops [del_op (expiryKey opts (EStr d) key), del_op (prefixKey opts key)]"
    by simp
  from Some assms show ?thesis
    by (simp add: ttloff_def ttloff_finish_cases ttloff_lookup_def getFn_def host_get_cases
        metaStore_def Let_def batchFn_def host_batch_cases [OF v, simplified] decode_def)
qed

lemma ttlon_single:
  assumes "faults w = []" and "key \<notin> set (held w)" and "valid_time (clock w + ttl)"
  shows "fst (ttlon opts [key] ttl w) = Inr ()"
    and "faults (snd (ttlon opts [key] ttl w)) = []"
    and "held (snd (ttlon opts [key] ttl w)) = held w"
    and "metaStore opts (snd (ttlon opts [key] ttl w)) =
           renewed opts key (clock w + ttl) (metaStore opts w)"
    and "new_events w (snd (ttlon opts [key] ttl w)) =
           [EvAcquire [key], EvGet (metaTarget opts) (prefixKey opts key)]
           @ (case map_of (metaStore opts w) (prefixKey opts key) of
                None \<Rightarrow> []
              | Some d \<Rightarrow> [EvBatch (metaTarget opts)
                             [Some (del_op (expiryKey opts (EStr d) key)),
                              Some (del_op (prefixKey opts key))]])
           @ [EvBatch (metaTarget opts)
                [Some (put_op (expiryKey opts (EDate (clock w + ttl)) key) key),
                 Some (put_op (prefixKey opts key) (show_int (clock w + ttl)))],
              EvRelease [key]]"
proof -
  have lk: "lockable [key] w" using assms(2) by (simp add: lockable_def)
  let ?w1 = "w\<lparr>trace := trace w @ [EvAcquire [key]], held := held w @ [key]\<rparr>"
  have a: "snd (acquire [key] w) = ?w1" by (simp add: acquire_lockable [OF lk])
  have f1: "faults ?w1 = []" and m1: "metaStore opts ?w1 = metaStore opts w"
    and t1: "trace ?w1 = trace w @ [EvAcquire [key]]"
    using assms(1) by (simp_all add: metaStore_def store_of_def split: target.splits)
  note off = ttloff_single [OF f1, of opts key, unfolded m1 t1]
  have d: "new_Date (clock w + ttl) = EDate (clock w + ttl)"
    using assms(3) by (simp add: new_Date_def)
  let ?b = "ttlon_batch opts (EDate (clock w + ttl)) [key]"
  have b: "?b = [put_op (expiryKey opts (EDate (clock w + ttl)) key) key,
                 put_op (prefixKey opts key) (show_int (clock w + ttl))]"
    by (simp add: ttlon_batch_def)
  have v: "valid_ops ?b" by simp
  note on = ttlon_lockable [OF lk, of opts ttl, unfolded a off d]
  show "fst (ttlon opts [key] ttl w) = Inr ()"
    using ttlon_settles [of w "[key]" opts ttl] assms(1) lk by (simp add: no_throw_def)
  show "held (snd (ttlon opts [key] ttl w)) = held w"
    using ttlon_settles [of w "[key]" opts ttl] assms(1) lk by (simp add: no_throw_def)
  show "faults (snd (ttlon opts [key] ttl w)) = []"
    using assms(1)
    by (simp add: on ttlon_write_def Let_def batchFn_def
        host_batch_cases [OF v, unfolded b, simplified] release_def log_event_def b
        split: option.splits)
  show "metaStore opts (snd (ttlon opts [key] ttl w)) =
           renewed opts key (clock w + ttl) (metaStore opts w)"
    using assms(1)
    by (simp add: on ttlon_write_def Let_def batchFn_def
        host_batch_cases [OF v, unfolded b, simplified] release_def log_event_def b
        metaStore_def renewed_def split: option.splits)
  show "new_events w (snd (ttlon opts [key] ttl w)) =
           [EvAcquire [key], EvGet (metaTarget opts) (prefixKey opts key)]
           @ (case map_of (metaStore opts w) (prefixKey opts key) of
                None \<Rightarrow> []
              | Some d \<Rightarrow> [EvBatch (metaTarget opts)
                             [Some (del_op (expiryKey opts (EStr d) key)),
                              Some (del_op (prefixKey opts key))]])
           @ [EvBatch (metaTarget opts)
                [Some (put_op (expiryKey opts (EDate (clock w + ttl)) key) key),
                 Some (put_op (prefixKey opts key) (show_int (clock w + ttl)))],
              EvRelease [key]]"
    using assms(1)
    by (simp add: on ttlon_write_def Let_def batchFn_def
        host_batch_cases [OF v, unfolded b, simplified] release_def log_event_def b
        new_events_def split: option.splits)
qed

lemma renewals_live_pair:
  assumes "faults w = []" and "key \<notin> set (held w)"
      and "pair_or_none opts key (metaStore opts w)" and "calls \<noteq> []"
      and "list_all (\<lambda>c. valid_time (fst c + snd c)) calls"
  shows "live_pair opts key (show_int (fst (last calls) + snd (last calls)))
           (metaStore opts (renewals opts key calls w))"
  using assms
proof (induction calls arbitrary: w)
  case Nil
  then show ?case by simp
next
  case (Cons c calls)
  obtain t ttl where c: "c = (t, ttl)" by force
  let ?w0 = "w\<lparr>clock := t\<rparr>"
  let ?w1 = "snd (ttlon opts [key] ttl ?w0)"
  have f0: "faults ?w0 = []" and h0: "key \<notin> set (held ?w0)"
    and v0: "valid_time (clock ?w0 + ttl)"
    using Cons.prems c by simp_all
  have m0: "metaStore opts ?w0 = metaStore opts w"
    by (simp add: metaStore_def store_of_def split: target.splits)
  have f1: "faults ?w1 = []" by (rule ttlon_single(2) [OF f0 h0 v0])
  have h1: "key \<notin> set (held ?w1)"
    using ttlon_single(3) [OF f0 h0 v0, of opts] Cons.prems(2) by simp
  have lp: "live_pair opts key (show_int (t + ttl)) (metaStore opts ?w1)"
    using ttlon_single(4) [OF f0 h0 v0, of opts] renewed_live_pair [OF Cons.prems(3), of "t + ttl"]
    by (simp add: m0)
  show ?case
  proof (cases "calls = []")
    case True
    with lp c show ?thesis by simp
  next
    case False
    have "list_all (\<lambda>c. valid_time (fst c + snd c)) calls"
      using Cons.prems(5) by simp
    from Cons.IH [OF f1 h1 live_pair_pair_or_none [OF lp] False this] False c show ?thesis
      by simp
  qed
qed

text \<open>
  On a host without storage failures, for every key that is not locked and whose index
  entries form a pair or are absent, and for expiry times that a \<^verbatim>\<open>Date\<close> can hold:
  one \<^verbatim>\<open>ttlon\<close> of the key takes the lock, looks the marker up, deletes the pair it
  finds in one batch, then writes the new ScheduleEntry and the new ExpiryMarker in one
  batch, and leaves exactly one live pair, whose timestamp is the expiry time of the
  call; and after any run of one or more renewals of the key there is exactly one live
  pair, whose timestamp is the expiry time of the last call.
\<close>

lemma renewals_without_failure:
  assumes "faults w = []" and "key \<notin> set (held w)"
      and "pair_or_none opts key (metaStore opts w)"
  shows "valid_time (clock w + ttl) \<longrightarrow>
           new_events w (snd (ttlon opts [key] ttl w)) =
             [EvAcquire [key], EvGet (metaTarget opts) (prefixKey opts key)]
             @ (case map_of (metaStore opts w) (prefixKey opts key) of
                  None \<Rightarrow> []
                | Some d \<Rightarrow> [EvBatch (metaTarget opts)
                               [Some (del_op (expiryKey opts (EStr d) key)),
                                Some (del_op (prefixKey opts key))]])
             @ [EvBatch (metaTarget opts)
                  [Some (put_op (expiryKey opts (EDate (clock w + ttl)) key) key),
                   Some (put_op (prefixKey opts key) (show_int (clock w + ttl)))],
                EvRelease [key]]
           \<and> live_pair opts key (show_int (clock w + ttl))
                (metaStore opts (snd (ttlon opts [key] ttl w)))"
    and "calls \<noteq> [] \<and> list_all (\<lambda>c. valid_time (fst c + snd c)) calls \<longrightarrow>
           live_pair opts key (show_int (fst (last calls) + snd (last calls)))
             (metaStore opts (renewals opts key calls w))"
  using ttlon_single(5) [OF assms(1,2), of ttl opts]
    ttlon_single(4) [OF assms(1,2), of ttl opts]
    renewed_live_pair [OF assms(3), of "clock w + ttl"]
    renewals_live_pair [OF assms, of calls]
  by simp_all

lemma renewals_twice:
  "dbStore (renewals defaults ''bar'' [(1000, 250), (1050, 250)] world0) =
     [(''!ttl!x!1300!bar'', ''bar''), (''!ttl!bar'', ''1300'')]"
  by code_simp

text \<open>
  C1. The code at the failing input: \<^verbatim>\<open>bar\<close> has a pair at 1100, and at time 1000
  \<^verbatim>\<open>ttlon(db, ['bar'], 250)\<close> runs, with an \<^verbatim>\<open>'error'\<close> listener attached, on a host
  whose lookup succeeds and whose next batch, the deletion of the old pair, fails.
  \<^verbatim>\<open>ttloff\<close> emits the failure and resolves, and \<^verbatim>\<open>ttlon\<close> goes on to write the new
  pair. The call resolves, and the store holds two ScheduleEntries of \<^verbatim>\<open>bar\<close>, the
  stale one at 1100 and the new one at 1250, with the marker at 1250: there is no single
  live pair. A sweep at time 1200 finds the stale entry due and deletes \<^verbatim>\<open>bar\<close> and
  its marker, before the expiry that the renewal has set.
\<close>

theorem renewal_after_failed_clearing:
  "ttlon defaults [''bar''] 250 (world_bar\<lparr>faults := [None, Some STORAGE_FAILURE]\<rparr>) =
     (Inr (),
      world_bar\<lparr>dbStore := [(''bar'', ''barvalue''), (''!ttl!x!1100!bar'', ''bar''),
                              (''!ttl!bar'', ''1250''), (''!ttl!x!1250!bar'', ''bar'')],
                 emitted := [STORAGE_FAILURE],
                 trace := [EvAcquire [''bar''], EvGet Db ''!ttl!bar'',
                           EvBatch Db [Some (del_op ''!ttl!x!1100!bar''),
                                       Some (del_op ''!ttl!bar'')],
                           EvBatch Db [Some (put_op ''!ttl!x!1250!bar'' ''bar''),
                                       Some (put_op ''!ttl!bar'' ''1250'')],
                           EvRelease [''bar'']]\<rparr>)
   \<and> filter (is_schedule_key defaults ''bar'')
        (map fst (dbStore (snd (ttlon defaults [''bar''] 250
                                  (world_bar\<lparr>faults := [None, Some STORAGE_FAILURE]\<rparr>))))) =
       [''!ttl!x!1100!bar'', ''!ttl!x!1250!bar'']
   \<and> \<not> live_pair defaults ''bar'' ''1250''
         (dbStore (snd (ttlon defaults [''bar''] 250
                          (world_bar\<lparr>faults := [None, Some STORAGE_FAILURE]\<rparr>))))
   \<and> dbStore (settle (stream_events defaults 0 (timer_fire defaults
        ((snd (ttlon defaults [''bar''] 250
                 (world_bar\<lparr>faults := [None, Some STORAGE_FAILURE]\<rparr>)))\<lparr>clock := 1200\<rparr>)))) =
       [(''!ttl!x!1250!bar'', ''bar'')]"
  by code_simp

subsection \<open>put\<close>






subsection \<open>batch with a ttl\<close>

text \<open>The two index updates of a batch run interleaved: the lookup of \<^verbatim>\<open>ttloff\<close> for
  the deleted keys precedes the write of \<^verbatim>\<open>ttlon\<close>. A batch with a ttl that puts and
  deletes the same key leaves the index pair of the key, and no data entry.\<close>

lemma batch_put_del_same_key:
  "batch defaults [Some (put_op ''a'' ''v''), Some (del_op ''a'')] (Some 100) world0 =
     (Inr (),
      world0\<lparr>dbStore := [(''!ttl!x!1100!a'', ''a''), (''!ttl!a'', ''1100'')],
             trace := [EvAcquire [''a''], EvGet Db ''!ttl!a'', EvGet Db ''!ttl!a'',
                       EvBatch Db [Some (put_op ''!ttl!x!1100!a'' ''a''),
                                   Some (put_op ''!ttl!a'' ''1100'')],
                       EvRelease [''a''],
                       EvBatch Db [Some (put_op ''a'' ''v''), Some (del_op ''a'')]]\<rparr>)"
  by code_simp

text \<open>A batch with a ttl that puts the same key twice asks for the lock of the key
  twice: the index is not touched, and the underlying batch is never called.\<close>

lemma batch_put_twice_blocks:
  "batch defaults [Some (put_op ''a'' ''v''), Some (put_op ''a'' ''w'')] (Some 100) world0 =
     (Inl Pending, world0\<lparr>trace := [EvAcquire [''a'', ''a'']], held := [''a'']\<rparr>)"
  by code_simp

subsection \<open>Expiry times beyond the range of a Date\<close>

text \<open>A ttl that takes the expiry time beyond 8.64e15 milliseconds makes the expiry
  time an \<^verbatim>\<open>Invalid Date\<close>: the pair is written under the timestamp \<^verbatim>\<open>NaN\<close>.\<close>

lemma ttlon_invalid_date:
  "dbStore (snd (ttlon defaults [''bar''] 8640000000000000 world0)) =
     [(''!ttl!x!NaN!bar'', ''bar''), (''!ttl!bar'', ''NaN'')]"
  by code_simp

subsection \<open>The model against the tests\<close>

text \<open>
  The layout that the tests of the repository expect: after
  \<^verbatim>\<open>put('bar', 'barvalue', { ttl: 100 })\<close> the store holds \<^verbatim>\<open>bar\<close>, a ScheduleEntry
  \<^verbatim>\<open>!ttl!x!<timestamp>!bar\<close> with value \<^verbatim>\<open>bar\<close> and a marker \<^verbatim>\<open>!ttl!bar\<close> with the
  timestamp as value; with a sub-store and an empty namespace, the index entries are
  \<^verbatim>\<open>x!<timestamp>!bar\<close> and \<^verbatim>\<open>bar\<close> in the sub-store.
\<close>

lemma put_layout:
  "dbStore (snd (put defaults (Some ''bar'') (Some ''barvalue'') (Some 100) world0)) =
     dbStore world_bar"
  by code_simp

lemma put_layout_sub:
  "dbStore (snd (put (defaults\<lparr>sub := True, namespace := []\<rparr>) (Some ''bar'') (Some ''barvalue'')
                   (Some 100) world0)) = [(''bar'', ''barvalue'')]
   \<and> subStore (snd (put (defaults\<lparr>sub := True, namespace := []\<rparr>) (Some ''bar'')
                       (Some ''barvalue'') (Some 100) world0)) =
       [(''x!1100!bar'', ''bar''), (''bar'', ''1100'')]"
  by code_simp

text \<open>An entry put with a ttl of 100 is gone after the sweep that follows its expiry,
  and one put without a ttl stays.\<close>

lemma expired_entry_is_swept:
  "dbStore (settle (stream_events defaults 0 (timer_fire defaults
      ((snd (put defaults (Some ''bar'') (Some ''barvalue'') (Some 100)
              (snd (put defaults (Some ''foo'') (Some ''foovalue'') None world0))))
       \<lparr>clock := 1150\<rparr>)))) = [(''foo'', ''foovalue'')]"
  by code_simp

end
